theory Spec2Isabelle
  imports Complex_Main
begin

section \<open>Camera position calculator: model of \<open>CameraPosCalculator.py\<close>\<close>

text \<open>
  The embedding follows \<open>src/CameraPosCalculator.py\<close> function by function. A Python float
  is modelled by the \<^typ>\<open>real\<close> it denotes, so the model holds finite floats only: \<open>nan\<close>
  and \<open>inf\<close> are outside it. Comparisons of floats are exact, and so is the sign of a
  difference of two floats; the theorems that decide a branch rest on nothing else. The
  other operations are written as the code writes them and computed without rounding, so
  a theorem that gives a value gives the formula the code evaluates; where a value is
  stated as a number, it is at an input where the double arithmetic is exact. The one
  operation whose rounding a theorem has to face, the addition of 24 hours, is a parameter
  of the model. Python's builtin converters \<open>int(str)\<close> and \<open>float(str)\<close> are parameters
  too (\<open>py_int\<close>, \<open>py_float\<close>): a function from strings to an optional value, \<open>None\<close>
  standing for \<open>ValueError\<close>; \<open>py_float\<close> stands for \<open>float\<close> on the strings it maps to a
  finite float. A table read by \<open>pd.read_csv\<close> is a list of rows of cells, a cell
  being a number, a missing value or a text, as pandas infers it; the table itself is an
  input of the model.
\<close>

subsection \<open>Strings\<close>

text \<open>\<open>str.split(sep)\<close> for a one-character separator: never empty, keeps empty tokens.\<close>

fun split_on :: "char \<Rightarrow> string \<Rightarrow> string list" where
  "split_on sep [] = [[]]"
| "split_on sep (c # cs) =
     (if c = sep then [] # split_on sep cs
      else (case split_on sep cs of
              tok # toks \<Rightarrow> (c # tok) # toks
            | [] \<Rightarrow> [[c]]))"

text \<open>
  \<open>extract_image_id_from_filename\<close>, lines 34 to 53. The \<open>try\<close> block turns
  \<open>ValueError\<close> (from \<open>int\<close>) and \<open>IndexError\<close> (from an index out of range) into the
  final \<open>return None\<close>.
\<close>

definition extract_image_id_from_filename :: "(string \<Rightarrow> int option) \<Rightarrow> string \<Rightarrow> int option" where
  "extract_image_id_from_filename py_int filename =
     (let parts = split_on (CHR ''_'') filename in
      if length parts \<ge> 3 then
        (case split_on (CHR ''.'') (parts ! 2) of
           id_part # _ \<Rightarrow> py_int id_part
         | [] \<Rightarrow> None)
      else None)"

text \<open>
  A converter that agrees with Python's \<open>int\<close> and \<open>float\<close> on non-empty strings of ASCII
  digits and rejects every other string. It only serves to run the model on examples.
\<close>

fun digits_value :: "nat \<Rightarrow> string \<Rightarrow> nat option" where
  "digits_value acc [] = Some acc"
| "digits_value acc (c # cs) =
     (if 48 \<le> (of_char c :: nat) \<and> (of_char c :: nat) \<le> 57
      then digits_value (10 * acc + (of_char c - 48)) cs
      else None)"

definition decimal_int :: "string \<Rightarrow> int option" where
  "decimal_int s = (if s = [] then None else map_option int (digits_value 0 s))"

definition decimal_float :: "string \<Rightarrow> real option" where
  "decimal_float s = (if s = [] then None else map_option real (digits_value 0 s))"

subsection \<open>Tables and trajectory samples\<close>

text \<open>
  A cell of a table read by \<open>pd.read_csv\<close>: a number, a text (every cell of a column that
  holds a token pandas cannot read as a number), or the \<open>NaN\<close> that fills the place of a
  field missing from a short line. A table is rectangular.
\<close>

datatype cell = Num real | NaN | Str string

type_synonym dataframe = "cell list list"

text \<open>\<open>df.iloc[i, c]\<close>; \<open>None\<close> is the \<open>IndexError\<close> of a position outside the table.\<close>

definition iloc :: "dataframe \<Rightarrow> nat \<Rightarrow> nat \<Rightarrow> cell option" where
  "iloc df i c = (if i < length df \<and> c < length (df ! i) then Some (df ! i ! c) else None)"

text \<open>
  A line of a positioning table, for examples: 34 cells, with the time of day in column 5
  and east, north and elevation in the columns 24, 25 and 33; the other cells are zero.
\<close>

definition pos_row :: "cell \<Rightarrow> cell \<Rightarrow> cell \<Rightarrow> cell \<Rightarrow> cell list" where
  "pos_row hms e n v =
     replicate 5 (Num 0) @ [hms] @ replicate 18 (Num 0) @ [e, n] @ replicate 7 (Num 0) @ [v]"

text \<open>
  A row \<open>[total_seconds, hours_decimal, east, north, elevation]\<close> of \<open>rinex_processed\<close>.
  The three coordinates are whatever the table holds (the parser copies them), so their
  type is a parameter: \<^typ>\<open>cell\<close> for the parser, \<^typ>\<open>real\<close> for the interpolation.
\<close>

record 'c sample =
  time_seconds :: real
  time_hours :: real
  east :: 'c
  north :: 'c
  elevation :: 'c

definition mk_sample :: "real \<Rightarrow> real \<Rightarrow> 'c \<Rightarrow> 'c \<Rightarrow> 'c \<Rightarrow> 'c sample" where
  "mk_sample total_seconds hours_decimal e n v =
     \<lparr>time_seconds = total_seconds, time_hours = hours_decimal,
      east = e, north = n, elevation = v\<rparr>"

text \<open>
  The exceptions raised inside the \<open>try\<close> of the matching loop. In Python the first three
  are all \<open>ValueError\<close>; the constructors keep apart where each is raised.
\<close>

datatype py_error =
    ValueError_unpack
  | ValueError_time_not_found real
  | ValueError_not_in_list
  | IndexError

subsection \<open>\<open>process_rinex_data\<close>, lines 56 to 99\<close>

text \<open>
  Lines 72 to 77: the time cell is split on \<open>:\<close>, every part converted by \<open>float\<close>, and
  the result unpacked into exactly three values. A cell that is not a text has no
  \<open>split\<close> (\<open>AttributeError\<close>). \<open>None\<close> stands for any of these exceptions. The
  spellings of \<open>nan\<close> and \<open>inf\<close>, which \<open>float\<close> accepts too, give no finite float and are
  outside the model: the properties below are about tables without them.
\<close>

definition parse_hms :: "(string \<Rightarrow> real option) \<Rightarrow> cell \<Rightarrow> (real \<times> real) option" where
  "parse_hms py_float hms_str =
     (case hms_str of
        Str s \<Rightarrow>
          (let hms_parts = split_on (CHR '':'') s in
           case those (map py_float hms_parts) of
             Some [hours, minutes, seconds] \<Rightarrow>
               (let total_seconds = hours * 3600 + minutes * 60 + seconds;
                    hours_decimal = total_seconds / 3600
                in Some (total_seconds, hours_decimal))
           | _ \<Rightarrow> None)
      | _ \<Rightarrow> None)"

text \<open>The body of the first loop (lines 72 to 85) for row \<open>i\<close>.\<close>

definition rinex_row :: "(string \<Rightarrow> real option) \<Rightarrow> dataframe \<Rightarrow> nat \<Rightarrow> cell sample option" where
  "rinex_row py_float rinex_data i =
     (case iloc rinex_data i 5 of
        None \<Rightarrow> None
      | Some hms_str \<Rightarrow>
          (case parse_hms py_float hms_str of
             None \<Rightarrow> None
           | Some (total_seconds, hours_decimal) \<Rightarrow>
               (case (iloc rinex_data i 24, iloc rinex_data i 25, iloc rinex_data i 33) of
                  (Some e, Some n, Some v) \<Rightarrow>
                    Some (mk_sample total_seconds hours_decimal e n v)
                | _ \<Rightarrow> None)))"

text \<open>
  The first loop, over the row indices still to visit, with \<open>rinex_processed\<close> as the
  accumulator; an exception in a row leaves the loop with \<open>None\<close>.
\<close>

fun rinex_rows ::
  "(string \<Rightarrow> real option) \<Rightarrow> dataframe \<Rightarrow> cell sample list \<Rightarrow> nat list \<Rightarrow> cell sample list option" where
  "rinex_rows py_float rinex_data rinex_processed [] = Some rinex_processed"
| "rinex_rows py_float rinex_data rinex_processed (i # rest) =
     (case rinex_row py_float rinex_data i of
        None \<Rightarrow> None
      | Some row \<Rightarrow> rinex_rows py_float rinex_data (rinex_processed @ [row]) rest)"

text \<open>
  Lines 92 and 93: the inner loop adds 24 to the hours of rows \<open>t\<close> to the end. The sum is
  a float again, the one nearest to the exact sum, so two different hours can get the same
  sum. The addition is therefore the parameter \<open>add_24\<close>: the function from a float \<open>h\<close> to
  the float \<open>h + 24.0\<close>. It is \<open>\<lambda>h. h + 24\<close> where nothing is rounded.
\<close>

definition rinex_add_24 :: "(real \<Rightarrow> real) \<Rightarrow> nat \<Rightarrow> 'c sample list \<Rightarrow> 'c sample list" where
  "rinex_add_24 add_24 t rinex_processed =
     foldl (\<lambda>rows i. rows[i := (rows ! i)\<lparr>time_hours := add_24 (time_hours (rows ! i))\<rparr>])
       rinex_processed [t..<length rinex_processed]"

text \<open>
  Lines 88 to 94: the scan from \<open>t\<close>; the \<open>break\<close> ends it after the first correction.
  The test looks at the sign of a difference of two floats only.
\<close>

function rinex_rollover :: "(real \<Rightarrow> real) \<Rightarrow> nat \<Rightarrow> 'c sample list \<Rightarrow> 'c sample list" where
  "rinex_rollover add_24 t rinex_processed =
     (if t < length rinex_processed then
        (let current_time = time_hours (rinex_processed ! t);
             past_time = time_hours (rinex_processed ! (t - 1))
         in if current_time - past_time \<le> 0 then rinex_add_24 add_24 t rinex_processed
            else rinex_rollover add_24 (t + 1) rinex_processed)
      else rinex_processed)"
  by pat_completeness auto
termination
  by (relation "measure (\<lambda>(add_24, t, rinex_processed). length rinex_processed - t)") auto

declare rinex_rollover.simps [simp del]

text \<open>
  The whole function. Its argument is the outcome of \<open>pd.read_csv\<close>: \<open>None\<close> when
  reading raised. The \<open>except\<close> clause returns the empty list for every exception.
\<close>

definition process_rinex_data ::
  "(string \<Rightarrow> real option) \<Rightarrow> (real \<Rightarrow> real) \<Rightarrow> dataframe option \<Rightarrow> cell sample list" where
  "process_rinex_data py_float add_24 read_csv =
     (case read_csv of
        None \<Rightarrow> []
      | Some rinex_data \<Rightarrow>
          (case rinex_rows py_float rinex_data [] [0..<length rinex_data] of
             None \<Rightarrow> []
           | Some rinex_processed \<Rightarrow> rinex_rollover add_24 1 rinex_processed))"

subsection \<open>\<open>process_timestamp_data\<close>, lines 102 to 149\<close>

text \<open>\<open>int(x)\<close> on a float truncates toward zero.\<close>

definition py_int_of_float :: "real \<Rightarrow> int" where
  "py_int_of_float x = (if 0 \<le> x then \<lfloor>x\<rfloor> else \<lceil>x\<rceil>)"

text \<open>
  Line 125, written as the code writes it and computed without rounding. The floats of
  the code follow it only while they still hold the integer part of the quotient, so the
  range of the result is stated below for seconds under \<open>2 ^ 53\<close>, up to where a float
  holds every integer.
\<close>

definition image_time_of :: "real \<Rightarrow> real" where
  "image_time_of seconds =
     (seconds / 3600) - of_int (py_int_of_float (seconds / 3600 / 24)) * 24"

text \<open>\<open>cell.split(',')[0]\<close>, lines 129 to 131; a number has no \<open>split\<close>.\<close>

definition first_token :: "cell \<Rightarrow> string option" where
  "first_token c =
     (case c of
        Str s \<Rightarrow> (case split_on (CHR '','') s of tok # _ \<Rightarrow> Some tok | [] \<Rightarrow> None)
      | _ \<Rightarrow> None)"

text \<open>
  The body of the first loop (lines 121 to 137) for row \<open>i\<close>: the id as read, the image
  time, and the offset \<open>[east, north, elev]\<close> from columns 4, 3 and 5. Dividing a text by
  a float is a \<open>TypeError\<close>, and \<open>int\<close> of \<open>NaN\<close> a \<open>ValueError\<close>.
\<close>

definition timestamp_row ::
  "(string \<Rightarrow> real option) \<Rightarrow> dataframe \<Rightarrow> nat \<Rightarrow> (cell \<times> real \<times> real list) option" where
  "timestamp_row py_float timestamp_data i =
     (case (iloc timestamp_data i 0, iloc timestamp_data i 1) of
        (Some image_id, Some (Num seconds)) \<Rightarrow>
          (let image_time = image_time_of seconds in
           case (Option.bind (iloc timestamp_data i 4) first_token,
                 Option.bind (iloc timestamp_data i 3) first_token,
                 Option.bind (iloc timestamp_data i 5) first_token) of
             (Some east_str, Some north_str, Some elev_str) \<Rightarrow>
               (case (py_float east_str, py_float north_str, py_float elev_str) of
                  (Some east_offset, Some north_offset, Some elev_offset) \<Rightarrow>
                    Some (image_id, image_time, [east_offset, north_offset, elev_offset])
                | _ \<Rightarrow> None)
           | _ \<Rightarrow> None)
      | _ \<Rightarrow> None)"

fun timestamp_rows ::
  "(string \<Rightarrow> real option) \<Rightarrow> dataframe \<Rightarrow> real list \<times> cell list \<times> real list list \<Rightarrow> nat list
     \<Rightarrow> (real list \<times> cell list \<times> real list list) option" where
  "timestamp_rows py_float timestamp_data acc [] = Some acc"
| "timestamp_rows py_float timestamp_data (image_times, image_ids, offsets) (i # rest) =
     (case timestamp_row py_float timestamp_data i of
        None \<Rightarrow> None
      | Some (image_id, image_time, offset) \<Rightarrow>
          timestamp_rows py_float timestamp_data
            (image_times @ [image_time], image_ids @ [image_id], offsets @ [offset]) rest)"

text \<open>Lines 142 and 143, with the same parameter \<open>add_24\<close> for the float addition.\<close>

definition timestamp_add_24 :: "(real \<Rightarrow> real) \<Rightarrow> nat \<Rightarrow> real list \<Rightarrow> real list" where
  "timestamp_add_24 add_24 t image_times =
     foldl (\<lambda>times i. times[i := add_24 (times ! i)]) image_times [t..<length image_times]"

text \<open>Lines 140 to 144.\<close>

function timestamp_rollover :: "(real \<Rightarrow> real) \<Rightarrow> nat \<Rightarrow> real list \<Rightarrow> real list" where
  "timestamp_rollover add_24 t image_times =
     (if t < length image_times then
        (if image_times ! t - image_times ! (t - 1) < 0
         then timestamp_add_24 add_24 t image_times
         else timestamp_rollover add_24 (t + 1) image_times)
      else image_times)"
  by pat_completeness auto
termination
  by (relation "measure (\<lambda>(add_24, t, image_times). length image_times - t)") auto

declare timestamp_rollover.simps [simp del]

definition process_timestamp_data ::
  "(string \<Rightarrow> real option) \<Rightarrow> (real \<Rightarrow> real) \<Rightarrow> dataframe option
     \<Rightarrow> real list \<times> cell list \<times> real list list" where
  "process_timestamp_data py_float add_24 read_csv =
     (case read_csv of
        None \<Rightarrow> ([], [], [])
      | Some timestamp_data \<Rightarrow>
          (case timestamp_rows py_float timestamp_data ([], [], []) [0..<length timestamp_data] of
             None \<Rightarrow> ([], [], [])
           | Some (image_times, image_ids, offsets) \<Rightarrow>
               (timestamp_rollover add_24 1 image_times, image_ids, offsets)))"

subsection \<open>\<open>interpolate_coordinates\<close>, lines 152 to 193\<close>

text \<open>
  The loop of lines 166 to 191 from pair \<open>i\<close> on, and the \<open>raise\<close> of line 193. Which branch
  a pair takes is decided by comparisons. The blend of lines 172 to 178 is the formula of
  the code, computed without rounding: the floats of the code evaluate the same formula
  and can differ from its exact value in the last place.
\<close>

function interpolate_scan ::
  "nat \<Rightarrow> real \<Rightarrow> real sample list \<Rightarrow> real \<Rightarrow> real \<Rightarrow> real \<Rightarrow> py_error + (real \<times> real \<times> real)" where
  "interpolate_scan i hour rinex_data east_offset north_offset elev_offset =
     (if i < length rinex_data then
        (let time_before = time_hours (rinex_data ! (i - 1));
             time_after = time_hours (rinex_data ! i)
         in if time_before < hour \<and> hour < time_after then
              (let delta_time_total = time_after - time_before;
                   delta_time_partial = hour - time_before;
                   weight = delta_time_partial / delta_time_total;
                   east_coord = east (rinex_data ! (i - 1))
                     + (east (rinex_data ! i) - east (rinex_data ! (i - 1))) * weight;
                   north_coord = north (rinex_data ! (i - 1))
                     + (north (rinex_data ! i) - north (rinex_data ! (i - 1))) * weight;
                   elev_coord = elevation (rinex_data ! (i - 1))
                     + (elevation (rinex_data ! i) - elevation (rinex_data ! (i - 1))) * weight
               in Inr (east_coord + east_offset / 1000,
                       north_coord + north_offset / 1000,
                       elev_coord - elev_offset / 1000))
            else if time_before = hour then
              Inr (east (rinex_data ! (i - 1)) + east_offset / 1000,
                   north (rinex_data ! (i - 1)) + north_offset / 1000,
                   elevation (rinex_data ! (i - 1)) - elev_offset / 1000)
            else interpolate_scan (i + 1) hour rinex_data east_offset north_offset elev_offset)
      else Inl (ValueError_time_not_found hour))"
  by pat_completeness auto
termination
  by (relation "measure (\<lambda>(i, hour, rinex_data, e, n, v). length rinex_data - i)") auto

declare interpolate_scan.simps [simp del]

text \<open>Line 164 unpacks the offset into exactly three values, then the scan starts at 1.\<close>

definition interpolate_coordinates ::
  "real \<Rightarrow> real sample list \<Rightarrow> real list \<Rightarrow> py_error + (real \<times> real \<times> real)" where
  "interpolate_coordinates hour rinex_data offset =
     (case offset of
        [east_offset, north_offset, elev_offset] \<Rightarrow>
          interpolate_scan 1 hour rinex_data east_offset north_offset elev_offset
      | _ \<Rightarrow> Inl ValueError_unpack)"

subsection \<open>The matching loop of \<open>camera_position_calculator\<close>, lines 329 to 348\<close>

text \<open>\<open>list.index(x)\<close>: the first position holding \<open>x\<close>; \<open>None\<close> is its \<open>ValueError\<close>.\<close>

fun index_of :: "'a list \<Rightarrow> 'a \<Rightarrow> nat option" where
  "index_of [] x = None"
| "index_of (y # ys) x = (if y = x then Some 0 else map_option Suc (index_of ys x))"

text \<open>
  The \<open>try\<close> body, lines 339 to 343. The id taken from the filename is a Python \<open>int\<close>;
  it equals a numeric cell of the same value and no text cell.
\<close>

definition locate_image ::
  "int \<Rightarrow> cell list \<Rightarrow> real list \<Rightarrow> real list list \<Rightarrow> real sample list
     \<Rightarrow> py_error + (real \<times> real \<times> real)" where
  "locate_image image_id image_ids image_times offsets rinex_data =
     (case index_of image_ids (Num (of_int image_id)) of
        None \<Rightarrow> Inl ValueError_not_in_list
      | Some timestamp_index \<Rightarrow>
          (if timestamp_index < length image_times then
             (let hour = image_times ! timestamp_index in
              if timestamp_index < length offsets then
                (let offset = offsets ! timestamp_index in
                 interpolate_coordinates hour rinex_data offset)
              else Inl IndexError)
           else Inl IndexError))"

text \<open>
  The loop over the valid images, each with the id extracted from its name; the state is
  \<open>output_data\<close> and \<open>unmatched_images\<close> (\<open>matched_count\<close> is the length of the first).
\<close>

fun match_images ::
  "(string \<times> int) list \<Rightarrow> cell list \<Rightarrow> real list \<Rightarrow> real list list \<Rightarrow> real sample list
     \<Rightarrow> (string \<times> real \<times> real \<times> real) list \<times> (string \<times> int) list
     \<Rightarrow> (string \<times> real \<times> real \<times> real) list \<times> (string \<times> int) list" where
  "match_images [] image_ids image_times offsets rinex_data state = state"
| "match_images ((image_file, image_id) # rest) image_ids image_times offsets rinex_data
       (output_data, unmatched_images) =
     (case locate_image image_id image_ids image_times offsets rinex_data of
        Inr (east_c, north_c, elev_c) \<Rightarrow>
          match_images rest image_ids image_times offsets rinex_data
            (output_data @ [(image_file, east_c, north_c, elev_c)], unmatched_images)
      | Inl _ \<Rightarrow>
          match_images rest image_ids image_times offsets rinex_data
            (output_data, unmatched_images @ [(image_file, image_id)]))"

subsection \<open>Vocabulary of the properties\<close>

text \<open>Pair \<open>(i - 1, i)\<close> holds the query strictly inside, or has it as its left end.\<close>

definition interior_pair :: "real \<Rightarrow> 'c sample list \<Rightarrow> nat \<Rightarrow> bool" where
  "interior_pair hour traj i \<longleftrightarrow>
     time_hours (traj ! (i - 1)) < hour \<and> hour < time_hours (traj ! i)"

definition boundary_pair :: "real \<Rightarrow> 'c sample list \<Rightarrow> nat \<Rightarrow> bool" where
  "boundary_pair hour traj i \<longleftrightarrow> time_hours (traj ! (i - 1)) = hour"

text \<open>The linear blend of one coordinate between samples \<open>i - 1\<close> and \<open>i\<close>.\<close>

definition blended :: "real \<Rightarrow> real sample list \<Rightarrow> nat \<Rightarrow> (real sample \<Rightarrow> real) \<Rightarrow> real" where
  "blended hour traj i coord =
     coord (traj ! (i - 1)) + (coord (traj ! i) - coord (traj ! (i - 1)))
       * (hour - time_hours (traj ! (i - 1)))
       / (time_hours (traj ! i) - time_hours (traj ! (i - 1)))"

text \<open>
  The rollover correction in the words of the specification, with the trigger comparison
  and the addition of 24 as parameters: at the first index \<open>t \<ge> 1\<close> with
  \<open>trigger (hours[t]) (hours[t-1])\<close>, add 24 to \<open>hours[t]\<close> and every later element;
  otherwise leave the sequence alone.
\<close>

definition first_trigger :: "(real \<Rightarrow> real \<Rightarrow> bool) \<Rightarrow> real list \<Rightarrow> nat option" where
  "first_trigger trigger hours =
     find (\<lambda>t. trigger (hours ! t) (hours ! (t - 1))) [1..<length hours]"

definition unwrap_first ::
  "(real \<Rightarrow> real \<Rightarrow> bool) \<Rightarrow> (real \<Rightarrow> real) \<Rightarrow> real list \<Rightarrow> real list" where
  "unwrap_first trigger add_24 hours =
     (case first_trigger trigger hours of
        None \<Rightarrow> hours
      | Some t \<Rightarrow> take t hours @ map add_24 (drop t hours))"

text \<open>
  What the trajectory parser asks of row \<open>i\<close>: the table has the columns 5, 24, 25 and 33,
  and the time cell is a text of exactly three parts between \<open>:\<close>, each accepted by
  \<open>float\<close>. Nothing is asked of the three coordinate cells.
\<close>

definition time_field_ok :: "(string \<Rightarrow> real option) \<Rightarrow> cell \<Rightarrow> bool" where
  "time_field_ok py_float c =
     (case c of
        Str s \<Rightarrow> length (split_on (CHR '':'') s) = 3 \<and>
                 list_all (\<lambda>part. py_float part \<noteq> None) (split_on (CHR '':'') s)
      | _ \<Rightarrow> False)"

definition rinex_row_ok :: "(string \<Rightarrow> real option) \<Rightarrow> dataframe \<Rightarrow> nat \<Rightarrow> bool" where
  "rinex_row_ok py_float df i =
     (case (iloc df i 5, iloc df i 24, iloc df i 25, iloc df i 33) of
        (Some hms, Some _, Some _, Some _) \<Rightarrow> time_field_ok py_float hms
      | _ \<Rightarrow> False)"

text \<open>
  What the capture-log parser asks of row \<open>i\<close>: the columns 0, 1, 3, 4 and 5 exist, the
  seconds cell is a number, and each offset cell is a text whose part before the first
  comma is accepted by \<open>float\<close>. Nothing is asked of the id cell.
\<close>

definition offset_field_ok :: "(string \<Rightarrow> real option) \<Rightarrow> cell option \<Rightarrow> bool" where
  "offset_field_ok py_float c =
     (case c of
        Some (Str s) \<Rightarrow> py_float (takeWhile (\<lambda>ch. ch \<noteq> CHR '','') s) \<noteq> None
      | _ \<Rightarrow> False)"

definition timestamp_row_ok :: "(string \<Rightarrow> real option) \<Rightarrow> dataframe \<Rightarrow> nat \<Rightarrow> bool" where
  "timestamp_row_ok py_float df i =
     (case (iloc df i 0, iloc df i 1) of
        (Some _, Some (Num _)) \<Rightarrow>
          offset_field_ok py_float (iloc df i 4) \<and>
          offset_field_ok py_float (iloc df i 3) \<and>
          offset_field_ok py_float (iloc df i 5)
      | _ \<Rightarrow> False)"

text \<open>Every adjacent pair is in order.\<close>

definition adjacent_nondecreasing :: "real list \<Rightarrow> bool" where
  "adjacent_nondecreasing hours \<longleftrightarrow> list_all (\<lambda>i. hours ! (i - 1) \<le> hours ! i) [1..<length hours]"

section \<open>The interpolation scan\<close>

text \<open>One step of the scan: a pair matches in one of the two ways, or the scan moves on.\<close>

lemma scan_interior:
  assumes "i < length traj" "interior_pair hour traj i"
  shows "interpolate_scan i hour traj e n v =
     Inr (blended hour traj i east + e / 1000,
          blended hour traj i north + n / 1000,
          blended hour traj i elevation - v / 1000)"
  using assms
  by (subst interpolate_scan.simps) (simp add: interior_pair_def blended_def Let_def)

lemma scan_boundary:
  assumes "i < length traj" "boundary_pair hour traj i"
  shows "interpolate_scan i hour traj e n v =
     Inr (east (traj ! (i - 1)) + e / 1000,
          north (traj ! (i - 1)) + n / 1000,
          elevation (traj ! (i - 1)) - v / 1000)"
  using assms
  by (subst interpolate_scan.simps) (simp add: boundary_pair_def Let_def)

lemma scan_miss:
  assumes "i < length traj" "\<not> interior_pair hour traj i" "\<not> boundary_pair hour traj i"
  shows "interpolate_scan i hour traj e n v = interpolate_scan (Suc i) hour traj e n v"
  using assms
  by (subst interpolate_scan.simps) (auto simp add: interior_pair_def boundary_pair_def Let_def)

lemma scan_end:
  assumes "length traj \<le> i"
  shows "interpolate_scan i hour traj e n v = Inl (ValueError_time_not_found hour)"
  using assms by (subst interpolate_scan.simps) simp

lemma scan_skip:
  assumes "k \<le> i" "i \<le> length traj"
    and "\<forall>j. k \<le> j \<and> j < i \<longrightarrow> \<not> interior_pair hour traj j \<and> \<not> boundary_pair hour traj j"
  shows "interpolate_scan k hour traj e n v = interpolate_scan i hour traj e n v"
  using assms
proof (induction "i - k" arbitrary: k)
  case 0
  then show ?case by simp
next
  case (Suc d)
  then have "k < i" by simp
  with Suc.prems have miss: "\<not> interior_pair hour traj k" "\<not> boundary_pair hour traj k"
    and len: "k < length traj" by auto
  have "interpolate_scan (Suc k) hour traj e n v = interpolate_scan i hour traj e n v"
    using Suc.hyps(1) [of "Suc k"] Suc.hyps(2) Suc.prems \<open>k < i\<close> by auto
  with scan_miss [OF len miss] show ?case by simp
qed

lemma scan_fail_iff:
  "interpolate_scan k hour traj e n v = Inl (ValueError_time_not_found hour) \<longleftrightarrow>
     \<not> (\<exists>i. k \<le> i \<and> i < length traj \<and> (interior_pair hour traj i \<or> boundary_pair hour traj i))"
proof (induction k hour traj e n v rule: interpolate_scan.induct)
  case (1 i hour rinex_data e n v)
  show ?case
  proof (cases "i < length rinex_data")
    case False
    then show ?thesis by (simp add: scan_end)
  next
    case len: True
    show ?thesis
    proof (cases "interior_pair hour rinex_data i \<or> boundary_pair hour rinex_data i")
      case True
      then have "\<exists>r. interpolate_scan i hour rinex_data e n v = Inr r"
        using scan_interior [OF len] scan_boundary [OF len] by metis
      with True len show ?thesis by auto
    next
      case False
      then have step: "interpolate_scan i hour rinex_data e n v =
          interpolate_scan (i + 1) hour rinex_data e n v"
        using scan_miss [OF len] by simp
      have ih: "interpolate_scan (i + 1) hour rinex_data e n v = Inl (ValueError_time_not_found hour) \<longleftrightarrow>
         \<not> (\<exists>j. i + 1 \<le> j \<and> j < length rinex_data \<and>
              (interior_pair hour rinex_data j \<or> boundary_pair hour rinex_data j))"
        using "1.IH" [OF len] False
        by (simp add: interior_pair_def boundary_pair_def)
      have "(\<exists>j. i \<le> j \<and> j < length rinex_data \<and>
              (interior_pair hour rinex_data j \<or> boundary_pair hour rinex_data j)) \<longleftrightarrow>
            (\<exists>j. i + 1 \<le> j \<and> j < length rinex_data \<and>
              (interior_pair hour rinex_data j \<or> boundary_pair hour rinex_data j))"
        using False by (metis Suc_eq_plus1 Suc_leI le_neq_implies_less add_leD1)
      with step ih show ?thesis by simp
    qed
  qed
qed

lemma scan_cases:
  "interpolate_scan k hour traj e n v = Inl (ValueError_time_not_found hour) \<or>
   (\<exists>r. interpolate_scan k hour traj e n v = Inr r)"
proof (induction k hour traj e n v rule: interpolate_scan.induct)
  case (1 i hour rinex_data e n v)
  show ?case
    using "1.IH"
    by (subst (1 2) interpolate_scan.simps) (auto simp add: Let_def)
qed

lemma scan_offset:
  "interpolate_scan k hour traj e n v =
     (case interpolate_scan k hour traj 0 0 0 of
        Inl err \<Rightarrow> Inl err
      | Inr (x, y, z) \<Rightarrow> Inr (x + e / 1000, y + n / 1000, z - v / 1000))"
proof (induction k hour traj e n v rule: interpolate_scan.induct)
  case (1 i hour rinex_data e n v)
  show ?case
  proof (cases "i < length rinex_data")
    case False
    then show ?thesis by (simp add: scan_end)
  next
    case len: True
    consider (int) "interior_pair hour rinex_data i"
      | (bnd) "\<not> interior_pair hour rinex_data i" "boundary_pair hour rinex_data i"
      | (miss) "\<not> interior_pair hour rinex_data i" "\<not> boundary_pair hour rinex_data i"
      by blast
    then show ?thesis
    proof cases
      case int
      then show ?thesis by (simp add: scan_interior [OF len])
    next
      case bnd
      then show ?thesis by (simp add: scan_boundary [OF len])
    next
      case miss
      then have "interpolate_scan (i + 1) hour rinex_data e n v =
        (case interpolate_scan (i + 1) hour rinex_data 0 0 0 of
          Inl err \<Rightarrow> Inl err
        | Inr (x, y, z) \<Rightarrow> Inr (x + e / 1000, y + n / 1000, z - v / 1000))"
        using "1.IH" [OF len] by (simp add: interior_pair_def boundary_pair_def)
      then show ?thesis
        using miss by (simp add: scan_miss [OF len])
    qed
  qed
qed


lemma interpolate_fail_iff:
  "interpolate_coordinates hour traj [e, n, v] = Inl (ValueError_time_not_found hour) \<longleftrightarrow>
     \<not> (\<exists>i. 1 \<le> i \<and> i < length traj \<and> (interior_pair hour traj i \<or> boundary_pair hour traj i))"
  by (simp add: interpolate_coordinates_def scan_fail_iff)

lemma interpolate_cases:
  "interpolate_coordinates hour traj [e, n, v] = Inl (ValueError_time_not_found hour) \<or>
   (\<exists>r. interpolate_coordinates hour traj [e, n, v] = Inr r)"
  using scan_cases [of 1 hour traj e n v] by (simp add: interpolate_coordinates_def)

lemma sorted_before_first:
  assumes "sorted (map time_hours traj)" "traj \<noteq> []" "hour < time_hours (hd traj)"
    "i < length traj"
  shows "\<not> interior_pair hour traj i" "\<not> boundary_pair hour traj i"
proof -
  have "time_hours (hd traj) \<le> time_hours (traj ! (i - 1))"
    using assms sorted_nth_mono [of "map time_hours traj" 0 "i - 1"]
    by (simp add: hd_conv_nth)
  with assms(3) have "hour < time_hours (traj ! (i - 1))" by simp
  then show "\<not> interior_pair hour traj i" "\<not> boundary_pair hour traj i"
    by (auto simp add: interior_pair_def boundary_pair_def)
qed

lemma sorted_at_last:
  assumes "sorted (map time_hours traj)" "traj \<noteq> []"
    "time_hours (last traj) \<notin> time_hours ` set (butlast traj)"
    "1 \<le> i" "i < length traj"
  shows "\<not> interior_pair (time_hours (last traj)) traj i"
    "\<not> boundary_pair (time_hours (last traj)) traj i"
proof -
  have "time_hours (traj ! i) \<le> time_hours (traj ! (length traj - 1))"
    using assms sorted_nth_mono [of "map time_hours traj" i "length traj - 1"] by simp
  then have "time_hours (traj ! i) \<le> time_hours (last traj)"
    using assms(2) by (simp add: last_conv_nth)
  then show "\<not> interior_pair (time_hours (last traj)) traj i"
    by (simp add: interior_pair_def)
  have "i - 1 < length (butlast traj)" using assms by simp
  then have "butlast traj ! (i - 1) \<in> set (butlast traj)" by (rule nth_mem)
  moreover have "butlast traj ! (i - 1) = traj ! (i - 1)"
    using \<open>i - 1 < length (butlast traj)\<close> by (simp add: nth_butlast)
  ultimately have "time_hours (traj ! (i - 1)) \<in> time_hours ` set (butlast traj)" by auto
  with assms(3) show "\<not> boundary_pair (time_hours (last traj)) traj i"
    by (auto simp add: boundary_pair_def)
qed

section \<open>Properties of the interpolation\<close>




text \<open>
  C2 (out of range), as the code has it. The interpolation raises the error of line 193
  exactly when no pair \<open>(i - 1, i)\<close> has \<open>time[i-1] < query_hour < time[i]\<close> or
  \<open>time[i-1] = query_hour\<close>, and returns a position exactly when some pair has. When the
  times are non-decreasing it fails for every query before the first sample's time; when
  moreover no earlier sample has the last sample's time, it fails at the last sample's
  time (the scan tests only the left end of each pair).
\<close>

theorem range_error_iff:
  "(interpolate_coordinates hour traj [e, n, v] = Inl (ValueError_time_not_found hour) \<longleftrightarrow>
      \<not> (\<exists>i. 1 \<le> i \<and> i < length traj \<and>
            (interior_pair hour traj i \<or> boundary_pair hour traj i)))
   \<and> ((\<exists>r. interpolate_coordinates hour traj [e, n, v] = Inr r) \<longleftrightarrow>
      (\<exists>i. 1 \<le> i \<and> i < length traj \<and>
            (interior_pair hour traj i \<or> boundary_pair hour traj i)))
   \<and> (sorted (map time_hours traj) \<and> traj \<noteq> [] \<and> hour < time_hours (hd traj) \<longrightarrow>
        interpolate_coordinates hour traj [e, n, v] = Inl (ValueError_time_not_found hour))
   \<and> (sorted (map time_hours traj) \<and> traj \<noteq> [] \<and>
        time_hours (last traj) \<notin> time_hours ` set (butlast traj) \<longrightarrow>
        interpolate_coordinates (time_hours (last traj)) traj [e, n, v] =
          Inl (ValueError_time_not_found (time_hours (last traj))))"
proof (intro conjI impI)
  show "interpolate_coordinates hour traj [e, n, v] = Inl (ValueError_time_not_found hour) \<longleftrightarrow>
      \<not> (\<exists>i. 1 \<le> i \<and> i < length traj \<and>
            (interior_pair hour traj i \<or> boundary_pair hour traj i))"
    by (rule interpolate_fail_iff)
  then show "(\<exists>r. interpolate_coordinates hour traj [e, n, v] = Inr r) \<longleftrightarrow>
      (\<exists>i. 1 \<le> i \<and> i < length traj \<and>
            (interior_pair hour traj i \<or> boundary_pair hour traj i))"
    using interpolate_cases [of hour traj e n v] by auto
next
  assume "sorted (map time_hours traj) \<and> traj \<noteq> [] \<and> hour < time_hours (hd traj)"
  then show "interpolate_coordinates hour traj [e, n, v] = Inl (ValueError_time_not_found hour)"
    unfolding interpolate_fail_iff using sorted_before_first by blast
next
  assume "sorted (map time_hours traj) \<and> traj \<noteq> [] \<and>
        time_hours (last traj) \<notin> time_hours ` set (butlast traj)"
  then show "interpolate_coordinates (time_hours (last traj)) traj [e, n, v] =
          Inl (ValueError_time_not_found (time_hours (last traj)))"
    unfolding interpolate_fail_iff using sorted_at_last by blast
qed

text \<open>The two consequences at the trajectory with times \<open>1, 2\<close>: queries \<open>0\<close> and \<open>2\<close>.\<close>

theorem range_error_iff_witness:
  "interpolate_coordinates 0 [mk_sample 3600 1 0 0 0, mk_sample 7200 2 10 20 30] [0, 0, 0]
     = Inl (ValueError_time_not_found 0)
   \<and> interpolate_coordinates 2 [mk_sample 3600 1 0 0 0, mk_sample 7200 2 10 20 30] [0, 0, 0]
     = Inl (ValueError_time_not_found 2)"
proof -
  let ?traj = "[mk_sample 3600 1 0 0 0, mk_sample 7200 2 10 20 30] :: real sample list"
  have a: "sorted (map time_hours ?traj) \<and> ?traj \<noteq> [] \<and> 0 < time_hours (hd ?traj)"
    by (simp add: mk_sample_def)
  have b: "sorted (map time_hours ?traj) \<and> ?traj \<noteq> [] \<and>
        time_hours (last ?traj) \<notin> time_hours ` set (butlast ?traj)"
    by (simp add: mk_sample_def)
  have c: "time_hours (last ?traj) = 2" by (simp add: mk_sample_def)
  from range_error_iff [of 0 ?traj 0 0 0] a range_error_iff [of 0 ?traj 0 0 0] b c
  show ?thesis by simp
qed

text \<open>
  Both consequences need the order of the times. With times \<open>5, 3, 7\<close> the query \<open>4\<close> is
  before the first sample's time and is found inside pair 2. With times
  \<open>0.5, 24.2, 24.2\<close> (what the trajectory parser makes of \<open>00:30:00, 00:12:00, 00:12:00\<close>)
  the query \<open>24.2\<close> is the last sample's time and matches the left end of pair 2.
\<close>

theorem range_error_counterexample:
  "4 < time_hours (hd [mk_sample 0 5 1 1 1, mk_sample 0 3 2 2 2, mk_sample 0 7 6 6 6 :: real sample])
   \<and> interpolate_coordinates 4 [mk_sample 0 5 1 1 1, mk_sample 0 3 2 2 2, mk_sample 0 7 6 6 6] [0, 0, 0]
       = Inr (3, 3, 3)
   \<and> time_hours (last [mk_sample 0 (1/2) 1 1 1, mk_sample 0 (121/5) 2 2 2, mk_sample 0 (121/5) 3 3 3 :: real sample])
       = 121 / 5
   \<and> interpolate_coordinates (121 / 5)
        [mk_sample 0 (1/2) 1 1 1, mk_sample 0 (121/5) 2 2 2, mk_sample 0 (121/5) 3 3 3] [0, 0, 0]
       = Inr (2, 2, 2)"
  by (simp add: interpolate_coordinates_def interpolate_scan.simps mk_sample_def)

text \<open>
  C5 (exact lower boundary), as the code has it. When pair \<open>(i - 1, i)\<close> is the first pair
  with \<open>time[i-1] = query_hour\<close> and no pair scanned before it is a strict-interior match,
  the result is the position of sample \<open>i - 1\<close>, unblended, with the offset applied.
\<close>

theorem boundary_exact:
  "1 \<le> i \<and> i < length traj \<and> boundary_pair hour traj i \<and>
    (\<forall>j. 1 \<le> j \<and> j < i \<longrightarrow> \<not> interior_pair hour traj j \<and> \<not> boundary_pair hour traj j)
    \<longrightarrow> interpolate_coordinates hour traj [e, n, v] =
          Inr (east (traj ! (i - 1)) + e / 1000,
               north (traj ! (i - 1)) + n / 1000,
               elevation (traj ! (i - 1)) - v / 1000)"
proof
  assume a: "1 \<le> i \<and> i < length traj \<and> boundary_pair hour traj i \<and>
    (\<forall>j. 1 \<le> j \<and> j < i \<longrightarrow> \<not> interior_pair hour traj j \<and> \<not> boundary_pair hour traj j)"
  then have "interpolate_scan 1 hour traj e n v = interpolate_scan i hour traj e n v"
    by (intro scan_skip) auto
  also have "\<dots> = Inr (east (traj ! (i - 1)) + e / 1000,
               north (traj ! (i - 1)) + n / 1000,
               elevation (traj ! (i - 1)) - v / 1000)"
    using a by (intro scan_boundary) auto
  finally show "interpolate_coordinates hour traj [e, n, v] =
          Inr (east (traj ! (i - 1)) + e / 1000,
               north (traj ! (i - 1)) + n / 1000,
               elevation (traj ! (i - 1)) - v / 1000)"
    by (simp add: interpolate_coordinates_def)
qed

text \<open>The theorem at the second pair of a three-sample trajectory.\<close>

theorem boundary_exact_witness:
  "interpolate_coordinates 3 [mk_sample 3600 1 0 0 0, mk_sample 10800 3 10 20 30, mk_sample 14400 4 7 8 9]
      [1000, 2000, 3000] = Inr (11, 22, 27)"
proof -
  let ?traj = "[mk_sample 3600 1 0 0 0, mk_sample 10800 3 10 20 30, mk_sample 14400 4 7 8 9] :: real sample list"
  have h: "1 \<le> (2::nat) \<and> 2 < length ?traj \<and> boundary_pair 3 ?traj 2 \<and>
    (\<forall>j. 1 \<le> j \<and> j < (2::nat) \<longrightarrow> \<not> interior_pair 3 ?traj j \<and> \<not> boundary_pair 3 ?traj j)"
  proof -
    have "j = 1" if "1 \<le> j \<and> j < (2::nat)" for j using that by simp
    then show ?thesis
      by (auto simp add: interior_pair_def boundary_pair_def mk_sample_def)
  qed
  from boundary_exact [of 2 ?traj 3 1000 2000 3000] h
  show ?thesis by (simp add: mk_sample_def)
qed

text \<open>
  Among several pairs with \<open>time[i-1] = query_hour\<close> only the first is used: with times
  \<open>1, 1, 2\<close> and query \<open>1\<close>, pair 2 has the query as its left end and no interior pair
  precedes it, but the result is sample 0, not sample 1.
\<close>

theorem boundary_exact_counterexample:
  "boundary_pair 1 [mk_sample 0 1 0 0 0, mk_sample 0 1 10 20 30, mk_sample 0 2 7 8 9 :: real sample] 2
   \<and> \<not> interior_pair 1 [mk_sample 0 1 0 0 0, mk_sample 0 1 10 20 30, mk_sample 0 2 7 8 9 :: real sample] 1
   \<and> interpolate_coordinates 1 [mk_sample 0 1 0 0 0, mk_sample 0 1 10 20 30, mk_sample 0 2 7 8 9] [0, 0, 0]
       = Inr (0, 0, 0)
   \<and> east ([mk_sample 0 1 0 0 0, mk_sample 0 1 10 20 30, mk_sample 0 2 7 8 9 :: real sample] ! (2 - 1)) = 10"
  by (simp add: interior_pair_def boundary_pair_def interpolate_coordinates_def
      interpolate_scan.simps mk_sample_def)

text \<open>
  C6 (offset sign law). Whatever the case that matched, the result with offset
  \<open>(east_mm, north_mm, elev_mm)\<close> is the result with zero offset with \<open>east_mm / 1000\<close>
  added to east, \<open>north_mm / 1000\<close> added to north and \<open>elev_mm / 1000\<close> subtracted from
  elevation, and a failure stays the same failure. A first sample at \<open>(0, 0, 0)\<close> queried
  at its own time with offset \<open>(1000, 2000, 3000)\<close> gives \<open>(1, 2, -3)\<close>.
\<close>

theorem offset_sign_law:
  "interpolate_coordinates hour traj [east_mm, north_mm, elev_mm] =
     (case interpolate_coordinates hour traj [0, 0, 0] of
        Inl err \<Rightarrow> Inl err
      | Inr (x, y, z) \<Rightarrow> Inr (x + east_mm / 1000, y + north_mm / 1000, z - elev_mm / 1000))
   \<and> interpolate_coordinates t0 (mk_sample s0 t0 0 0 0 # next_sample # rest) [1000, 2000, 3000]
       = Inr (1, 2, - 3)"
proof
  show "interpolate_coordinates hour traj [east_mm, north_mm, elev_mm] =
     (case interpolate_coordinates hour traj [0, 0, 0] of
        Inl err \<Rightarrow> Inl err
      | Inr (x, y, z) \<Rightarrow> Inr (x + east_mm / 1000, y + north_mm / 1000, z - elev_mm / 1000))"
    using scan_offset [of 1 hour traj east_mm north_mm elev_mm]
    by (simp add: interpolate_coordinates_def)
  have "boundary_pair t0 (mk_sample s0 t0 0 0 0 # next_sample # rest) 1"
    by (simp add: boundary_pair_def mk_sample_def)
  then have "interpolate_scan 1 t0 (mk_sample s0 t0 0 0 0 # next_sample # rest) 1000 2000 3000 =
     Inr (east ((mk_sample s0 t0 0 0 0 # next_sample # rest) ! (1 - 1)) + 1000 / 1000,
          north ((mk_sample s0 t0 0 0 0 # next_sample # rest) ! (1 - 1)) + 2000 / 1000,
          elevation ((mk_sample s0 t0 0 0 0 # next_sample # rest) ! (1 - 1)) - 3000 / 1000)"
    by (intro scan_boundary) simp_all
  then show "interpolate_coordinates t0 (mk_sample s0 t0 0 0 0 # next_sample # rest) [1000, 2000, 3000]
       = Inr (1, 2, - 3)"
    by (simp add: interpolate_coordinates_def mk_sample_def)
qed

section \<open>The rollover scans\<close>

text \<open>
  The inner loop updates the positions \<open>t\<close> to the end, each once; the scan finds the first
  index at which its comparison triggers. Together they are \<^const>\<open>unwrap_first\<close>.
\<close>

lemma foldl_update_range:
  assumes "m \<le> length xs"
  shows "length (foldl (\<lambda>acc i. acc[i := f (acc ! i)]) xs [t..<m]) = length xs \<and>
     (\<forall>i<length xs. foldl (\<lambda>acc i. acc[i := f (acc ! i)]) xs [t..<m] ! i =
        (if t \<le> i \<and> i < m then f (xs ! i) else xs ! i))"
  using assms
proof (induction m)
  case 0
  then show ?case by simp
next
  case (Suc m)
  show ?case
  proof (cases "t \<le> m")
    case False
    then have e: "[t..<Suc m] = []" by simp
    have "False" if "t \<le> i" "i < Suc m" for i using that False by arith
    then show ?thesis unfolding e by auto
  next
    case True
    let ?acc = "foldl (\<lambda>acc i. acc[i := f (acc ! i)]) xs [t..<m]"
    have ih: "length ?acc = length xs"
      "\<And>i. i < length xs \<Longrightarrow> ?acc ! i = (if t \<le> i \<and> i < m then f (xs ! i) else xs ! i)"
      using Suc by auto
    have m: "m < length xs" using Suc.prems by simp
    have step: "foldl (\<lambda>acc i. acc[i := f (acc ! i)]) xs [t..<Suc m] = ?acc[m := f (xs ! m)]"
      using True ih(2) [OF m] by simp
    show ?thesis
      unfolding step using True ih m by (auto simp add: nth_list_update)
  qed
qed

lemma timestamp_add_24_eq:
  "timestamp_add_24 f t xs = take t xs @ map f (drop t xs)"
proof (rule nth_equalityI)
  have r: "length (timestamp_add_24 f t xs) = length xs"
    "\<And>i. i < length xs \<Longrightarrow> timestamp_add_24 f t xs ! i = (if t \<le> i then f (xs ! i) else xs ! i)"
    using foldl_update_range [of "length xs" xs f t]
    by (auto simp add: timestamp_add_24_def)
  show "length (timestamp_add_24 f t xs) = length (take t xs @ map f (drop t xs))"
    using r(1) by simp
  fix i assume "i < length (timestamp_add_24 f t xs)"
  then have i: "i < length xs" using r(1) by simp
  show "timestamp_add_24 f t xs ! i = (take t xs @ map f (drop t xs)) ! i"
    using i r(2) [OF i] by (auto simp add: nth_append min_def)
qed

lemma rinex_add_24_hours:
  "map time_hours (rinex_add_24 f t xs) =
     take t (map time_hours xs) @ map f (drop t (map time_hours xs))"
proof (rule nth_equalityI)
  have r: "length (rinex_add_24 f t xs) = length xs"
    "\<And>i. i < length xs \<Longrightarrow> rinex_add_24 f t xs ! i =
        (if t \<le> i then (xs ! i)\<lparr>time_hours := f (time_hours (xs ! i))\<rparr> else xs ! i)"
    using foldl_update_range [of "length xs" xs "\<lambda>r. r\<lparr>time_hours := f (time_hours r)\<rparr>" t]
    by (auto simp add: rinex_add_24_def)
  show "length (map time_hours (rinex_add_24 f t xs)) =
      length (take t (map time_hours xs) @ map f (drop t (map time_hours xs)))"
    using r(1) by simp
  fix i assume "i < length (map time_hours (rinex_add_24 f t xs))"
  then have i: "i < length xs" using r(1) by simp
  show "map time_hours (rinex_add_24 f t xs) ! i =
      (take t (map time_hours xs) @ map f (drop t (map time_hours xs))) ! i"
    using i r by (auto simp add: nth_append min_def)
qed

lemma timestamp_rollover_find:
  "timestamp_rollover f k xs =
     (case find (\<lambda>t. xs ! t < xs ! (t - 1)) [k..<length xs] of
        None \<Rightarrow> xs
      | Some t \<Rightarrow> take t xs @ map f (drop t xs))"
proof (induction f k xs rule: timestamp_rollover.induct)
  case (1 f t image_times)
  show ?case
  proof (cases "t < length image_times")
    case False
    then show ?thesis by (subst timestamp_rollover.simps) simp
  next
    case True
    then have upt: "[t..<length image_times] = t # [t + 1..<length image_times]"
      by (simp add: upt_conv_Cons)
    show ?thesis
    proof (cases "image_times ! t - image_times ! (t - 1) < 0")
      case trig: True
      then show ?thesis
        using True by (subst timestamp_rollover.simps) (simp add: upt timestamp_add_24_eq)
    next
      case no: False
      then show ?thesis
        using True "1.IH" [OF True no]
        by (subst timestamp_rollover.simps) (simp add: upt)
    qed
  qed
qed

lemma rinex_rollover_find:
  "map time_hours (rinex_rollover f k xs) =
     (case find (\<lambda>t. time_hours (xs ! t) \<le> time_hours (xs ! (t - 1))) [k..<length xs] of
        None \<Rightarrow> map time_hours xs
      | Some t \<Rightarrow> take t (map time_hours xs) @ map f (drop t (map time_hours xs)))"
proof (induction f k xs rule: rinex_rollover.induct)
  case (1 f t rinex_processed)
  show ?case
  proof (cases "t < length rinex_processed")
    case False
    then show ?thesis by (subst rinex_rollover.simps) simp
  next
    case True
    then have upt: "[t..<length rinex_processed] = t # [t + 1..<length rinex_processed]"
      by (simp add: upt_conv_Cons)
    show ?thesis
    proof (cases "time_hours (rinex_processed ! t) - time_hours (rinex_processed ! (t - 1)) \<le> 0")
      case trig: True
      then show ?thesis
        using True by (subst rinex_rollover.simps) (simp add: upt rinex_add_24_hours Let_def)
    next
      case no: False
      then show ?thesis
        using True "1.IH" [OF True refl refl no]
        by (subst rinex_rollover.simps) (simp add: upt Let_def)
    qed
  qed
qed

lemma find_hours_cong:
  "find (\<lambda>t. R (time_hours (xs ! t)) (time_hours (xs ! (t - k)))) [k..<length xs] =
   find (\<lambda>t. R (map time_hours xs ! t) (map time_hours xs ! (t - k))) [k..<length xs]"
  by (rule find_cong) auto

lemma rinex_rollover_unwrap:
  "map time_hours (rinex_rollover f 1 samples) =
     unwrap_first (\<lambda>cur past. cur \<le> past) f (map time_hours samples)"
  by (simp add: rinex_rollover_find unwrap_first_def first_trigger_def find_hours_cong)

lemma timestamp_rollover_unwrap:
  "timestamp_rollover f 1 hours = unwrap_first (\<lambda>cur past. cur < past) f hours"
  by (simp add: timestamp_rollover_find unwrap_first_def first_trigger_def)

lemma first_trigger_Some_iff:
  "first_trigger R hs = Some t \<longleftrightarrow>
     1 \<le> t \<and> t < length hs \<and> R (hs ! t) (hs ! (t - 1)) \<and>
     (\<forall>j. 1 \<le> j \<and> j < t \<longrightarrow> \<not> R (hs ! j) (hs ! (j - 1)))"
proof
  assume "first_trigger R hs = Some t"
  then obtain i where i: "i < length [1..<length hs]"
      "R (hs ! ([1..<length hs] ! i)) (hs ! ([1..<length hs] ! i - 1))"
      "t = [1..<length hs] ! i"
      "\<forall>j<i. \<not> R (hs ! ([1..<length hs] ! j)) (hs ! ([1..<length hs] ! j - 1))"
    unfolding first_trigger_def find_Some_iff by blast
  have t: "t = 1 + i" "1 + i < length hs" using i(1,3) by auto
  have "\<not> R (hs ! j) (hs ! (j - 1))" if "1 \<le> j \<and> j < t" for j
  proof -
    have "j - 1 < i" using that t by auto
    with i(4) have "\<not> R (hs ! ([1..<length hs] ! (j - 1))) (hs ! ([1..<length hs] ! (j - 1) - 1))"
      by blast
    moreover have "[1..<length hs] ! (j - 1) = j" using that t by simp
    ultimately show ?thesis by simp
  qed
  with i t show "1 \<le> t \<and> t < length hs \<and> R (hs ! t) (hs ! (t - 1)) \<and>
     (\<forall>j. 1 \<le> j \<and> j < t \<longrightarrow> \<not> R (hs ! j) (hs ! (j - 1)))" by simp
next
  assume a: "1 \<le> t \<and> t < length hs \<and> R (hs ! t) (hs ! (t - 1)) \<and>
     (\<forall>j. 1 \<le> j \<and> j < t \<longrightarrow> \<not> R (hs ! j) (hs ! (j - 1)))"
  have "\<exists>i<length [1..<length hs]. R (hs ! ([1..<length hs] ! i)) (hs ! ([1..<length hs] ! i - 1)) \<and>
      t = [1..<length hs] ! i \<and>
      (\<forall>j<i. \<not> R (hs ! ([1..<length hs] ! j)) (hs ! ([1..<length hs] ! j - 1)))"
  proof (intro exI [of _ "t - 1"] conjI allI impI)
    show "t - 1 < length [1..<length hs]" using a by auto
    show "R (hs ! ([1..<length hs] ! (t - 1))) (hs ! ([1..<length hs] ! (t - 1) - 1))"
      using a by simp
    show "t = [1..<length hs] ! (t - 1)" using a by simp
    fix j assume j: "j < t - 1"
    then have "[1..<length hs] ! j = 1 + j" using a by (intro nth_upt) arith
    moreover have "\<not> R (hs ! (1 + j)) (hs ! (1 + j - 1))"
      using a j by (metis le_add1 less_diff_conv add.commute)
    ultimately show "\<not> R (hs ! ([1..<length hs] ! j)) (hs ! ([1..<length hs] ! j - 1))"
      by simp
  qed
  then show "first_trigger R hs = Some t"
    unfolding first_trigger_def find_Some_iff by blast
qed

lemma first_trigger_None_iff:
  "first_trigger R hs = None \<longleftrightarrow>
     (\<forall>j. 1 \<le> j \<and> j < length hs \<longrightarrow> \<not> R (hs ! j) (hs ! (j - 1)))"
  unfolding first_trigger_def find_None_iff by auto

lemma adjacent_nondecreasing_sorted: "adjacent_nondecreasing hs \<longleftrightarrow> sorted hs"
proof -
  have "(\<forall>i\<in>set [1..<length hs]. hs ! (i - 1) \<le> hs ! i) \<longleftrightarrow>
        (\<forall>i. Suc i < length hs \<longrightarrow> hs ! i \<le> hs ! Suc i)"
  proof
    assume a: "\<forall>i\<in>set [1..<length hs]. hs ! (i - 1) \<le> hs ! i"
    show "\<forall>i. Suc i < length hs \<longrightarrow> hs ! i \<le> hs ! Suc i"
    proof (intro allI impI)
      fix i assume "Suc i < length hs"
      then have "Suc i \<in> set [1..<length hs]" by simp
      with a have "hs ! (Suc i - 1) \<le> hs ! Suc i" by blast
      then show "hs ! i \<le> hs ! Suc i" by simp
    qed
  next
    assume a: "\<forall>i. Suc i < length hs \<longrightarrow> hs ! i \<le> hs ! Suc i"
    show "\<forall>i\<in>set [1..<length hs]. hs ! (i - 1) \<le> hs ! i"
    proof
      fix i assume "i \<in> set [1..<length hs]"
      then have "Suc (i - 1) < length hs" "Suc (i - 1) = i" by auto
      with a [rule_format, of "i - 1"] show "hs ! (i - 1) \<le> hs ! i" by simp
    qed
  qed
  then show ?thesis
    by (simp add: adjacent_nondecreasing_def list_all_iff sorted_iff_nth_Suc)
qed

lemma sorted_map_mono_on:
  assumes "mono f" "sorted (xs :: real list)"
  shows "sorted (map f xs :: real list)"
  using assms by (induction xs) (auto dest: monoD)

lemma unwrap_sorted_if:
  assumes R: "\<And>a b. \<not> R a b \<Longrightarrow> b \<le> a"
    and f: "mono f"
    and cond: "case first_trigger R hs of
        None \<Rightarrow> True
      | Some t \<Rightarrow> sorted (drop t hs) \<and> hs ! (t - 1) \<le> f (hs ! t)"
  shows "sorted (unwrap_first R f hs)"
proof (cases "first_trigger R hs")
  case None
  then have no: "\<not> R (hs ! j) (hs ! (j - 1))" if "1 \<le> j \<and> j < length hs" for j
    using that first_trigger_None_iff [of R hs] by blast
  have "hs ! i \<le> hs ! Suc i" if "Suc i < length hs" for i
  proof -
    have "\<not> R (hs ! Suc i) (hs ! (Suc i - 1))" using that no [of "Suc i"] by simp
    then show ?thesis using R [of "hs ! Suc i" "hs ! (Suc i - 1)"] by simp
  qed
  then have "sorted hs" by (simp add: sorted_iff_nth_Suc)
  then show ?thesis using None by (simp add: unwrap_first_def)
next
  case (Some t)
  then have t: "1 \<le> t" "t < length hs"
    and before: "\<And>j. 1 \<le> j \<and> j < t \<Longrightarrow> \<not> R (hs ! j) (hs ! (j - 1))"
    using first_trigger_Some_iff [of R hs t] by auto
  from cond Some have suf: "sorted (drop t hs)" and edge: "hs ! (t - 1) \<le> f (hs ! t)"
    by simp_all
  have "take t hs ! i \<le> take t hs ! Suc i" if "Suc i < length (take t hs)" for i
  proof -
    have "Suc i < t" using that t by simp
    then have "\<not> R (hs ! Suc i) (hs ! (Suc i - 1))" using before [of "Suc i"] by simp
    then have "hs ! i \<le> hs ! Suc i" using R [of "hs ! Suc i" "hs ! (Suc i - 1)"] by simp
    then show ?thesis using \<open>Suc i < t\<close> by simp
  qed
  then have pre: "sorted (take t hs)" by (simp add: sorted_iff_nth_Suc)
  have below: "x \<le> hs ! (t - 1)" if "x \<in> set (take t hs)" for x
  proof -
    from that obtain i where i: "i < length (take t hs)" "x = take t hs ! i"
      by (auto simp add: in_set_conv_nth)
    then have "i \<le> t - 1" "t - 1 < length (take t hs)" using t by auto
    with pre have "take t hs ! i \<le> take t hs ! (t - 1)" by (rule sorted_nth_mono)
    then show ?thesis using i t by simp
  qed
  have above: "hs ! t \<le> y" if "y \<in> set (drop t hs)" for y
  proof -
    from that obtain i where i: "i < length (drop t hs)" "y = drop t hs ! i"
      by (auto simp add: in_set_conv_nth)
    with suf have "drop t hs ! 0 \<le> drop t hs ! i" by (intro sorted_nth_mono) auto
    then show ?thesis using i t by simp
  qed
  have "x \<le> f y" if "x \<in> set (take t hs)" "y \<in> set (drop t hs)" for x y
  proof -
    have "f (hs ! t) \<le> f y" using f above [OF that(2)] by (rule monoD)
    with below [OF that(1)] edge show ?thesis by simp
  qed
  then have "sorted (take t hs @ map f (drop t hs))"
    using pre sorted_map_mono_on [OF f suf] by (auto simp add: sorted_append)
  then show ?thesis using Some by (simp add: unwrap_first_def)
qed

lemma first_trigger_le_lt:
  "first_trigger (\<lambda>cur past. cur < past) hs = Some t \<Longrightarrow>
   \<exists>u. first_trigger (\<lambda>cur past. cur \<le> past) hs = Some u \<and> u \<le> t"
proof -
  assume a: "first_trigger (\<lambda>cur past. cur < past) hs = Some t"
  then have t: "1 \<le> t" "t < length hs" "hs ! t < hs ! (t - 1)"
    using first_trigger_Some_iff [of "\<lambda>cur past. cur < past" hs t] by auto
  show ?thesis
  proof (cases "first_trigger (\<lambda>cur past. cur \<le> past) hs")
    case None
    then have "\<not> hs ! t \<le> hs ! (t - 1)"
      using t first_trigger_None_iff [of "\<lambda>cur past. cur \<le> past" hs] by blast
    with t show ?thesis by simp
  next
    case (Some u)
    then have "\<forall>j. 1 \<le> j \<and> j < u \<longrightarrow> \<not> hs ! j \<le> hs ! (j - 1)"
      using first_trigger_Some_iff [of "\<lambda>cur past. cur \<le> past" hs u] by blast
    then have "\<not> t < u" using t by force
    with Some show ?thesis by simp
  qed
qed

lemma unwrap_agree_iff:
  assumes f: "\<And>h. f h \<noteq> h"
  shows "unwrap_first (\<lambda>cur past. cur \<le> past) f hs = unwrap_first (\<lambda>cur past. cur < past) f hs \<longleftrightarrow>
     (case first_trigger (\<lambda>cur past. cur \<le> past) hs of
        None \<Rightarrow> True
      | Some t \<Rightarrow> hs ! t \<noteq> hs ! (t - 1))"
proof (cases "first_trigger (\<lambda>cur past. cur \<le> past) hs")
  case None
  have "first_trigger (\<lambda>cur past. cur < past) hs = None"
  proof (rule ccontr)
    assume "first_trigger (\<lambda>cur past. cur < past) hs \<noteq> None"
    then obtain t where "first_trigger (\<lambda>cur past. cur < past) hs = Some t" by auto
    from first_trigger_le_lt [OF this] None show False by simp
  qed
  with None show ?thesis by (simp add: unwrap_first_def)
next
  case (Some u)
  then have u: "1 \<le> u" "u < length hs" "hs ! u \<le> hs ! (u - 1)"
    and before: "\<And>j. 1 \<le> j \<and> j < u \<Longrightarrow> \<not> hs ! j \<le> hs ! (j - 1)"
    using first_trigger_Some_iff [of "\<lambda>cur past. cur \<le> past" hs u] by auto
  have le_at: "unwrap_first (\<lambda>cur past. cur \<le> past) f hs ! u = f (hs ! u)"
    using Some u by (simp add: unwrap_first_def nth_append)
  show ?thesis
  proof (cases "hs ! u = hs ! (u - 1)")
    case False
    then have "hs ! u < hs ! (u - 1)" using u by simp
    moreover have "\<not> hs ! j < hs ! (j - 1)" if "1 \<le> j \<and> j < u" for j
      using before [OF that] by simp
    ultimately have "first_trigger (\<lambda>cur past. cur < past) hs = Some u"
      using u first_trigger_Some_iff [of "\<lambda>cur past. cur < past" hs u] by blast
    with Some False show ?thesis by (simp add: unwrap_first_def)
  next
    case True
    have "unwrap_first (\<lambda>cur past. cur < past) f hs ! u = hs ! u"
    proof (cases "first_trigger (\<lambda>cur past. cur < past) hs")
      case None
      then show ?thesis by (simp add: unwrap_first_def)
    next
      case (Some t)
      from first_trigger_le_lt [OF this] \<open>first_trigger (\<lambda>cur past. cur \<le> past) hs = Some u\<close>
      have "u \<le> t" by simp
      moreover have "t \<noteq> u"
        using Some True first_trigger_Some_iff [of "\<lambda>cur past. cur < past" hs t] by auto
      ultimately have "u < t" by simp
      moreover have "t < length hs"
        using Some first_trigger_Some_iff [of "\<lambda>cur past. cur < past" hs t] by auto
      ultimately show ?thesis using Some by (simp add: unwrap_first_def nth_append)
    qed
    with le_at have "unwrap_first (\<lambda>cur past. cur \<le> past) f hs \<noteq>
        unwrap_first (\<lambda>cur past. cur < past) f hs"
      using f [of "hs ! u"] by metis
    with Some True show ?thesis by simp
  qed
qed

section \<open>The capture time of an image\<close>


lemma py_int_of_float_neg: "x < 0 \<Longrightarrow> py_int_of_float x = \<lceil>x\<rceil>"
  by (simp add: py_int_of_float_def)

lemma image_time_of_day:
  "image_time_of seconds = 24 * (seconds / 3600 / 24) -
     of_int (py_int_of_float (seconds / 3600 / 24)) * 24"
  by (simp add: image_time_of_def)

lemma image_time_of_negative:
  assumes "seconds < 0"
  shows "- 24 < image_time_of seconds \<and> image_time_of seconds \<le> 0"
proof -
  define y where "y = seconds / 3600 / 24"
  have "y < 0" using assms by (simp add: y_def)
  then have f: "py_int_of_float y = \<lceil>y\<rceil>" by (rule py_int_of_float_neg)
  have "y \<le> of_int \<lceil>y\<rceil>" "of_int \<lceil>y\<rceil> - 1 < y" by linarith+
  then show ?thesis unfolding image_time_of_day y_def [symmetric] f by linarith
qed



section \<open>The id of an image\<close>

lemma split_on_nonempty: "split_on sep s \<noteq> []"
  by (induction s) (auto split: list.splits)

lemma length_split_on: "length (split_on sep s) = Suc (count_list s sep)"
  by (induction s) (auto split: list.splits simp add: split_on_nonempty)

lemma hd_split_on: "hd (split_on sep s) = takeWhile (\<lambda>c. c \<noteq> sep) s"
  by (induction s) (auto split: list.splits simp add: split_on_nonempty)

lemma extract_unfold:
  "extract_image_id_from_filename py_int filename =
     (if 3 \<le> length (split_on (CHR ''_'') filename)
      then py_int (takeWhile (\<lambda>c. c \<noteq> CHR ''.'') (split_on (CHR ''_'') filename ! 2))
      else None)"
proof -
  have "(case split_on (CHR ''.'') tok of id_part # _ \<Rightarrow> py_int id_part | [] \<Rightarrow> None) =
      py_int (takeWhile (\<lambda>c. c \<noteq> CHR ''.'') tok)" for tok
    using hd_split_on [of "CHR ''.''" tok] split_on_nonempty [of "CHR ''.''" tok]
    by (cases "split_on (CHR ''.'') tok") auto
  then show ?thesis by (simp add: extract_image_id_from_filename_def Let_def)
qed

text \<open>
  C10 (id extraction is total). The function returns for every filename, and its result
  is an integer \<open>n\<close> exactly when the filename splits on \<open>_\<close> into at least 3 tokens and
  the part of token 2 before its first \<open>.\<close> converts to \<open>n\<close>; otherwise it is \<open>None\<close>. The
  number of tokens is one more than the number of \<open>_\<close> in the name.
\<close>

theorem extract_id_total:
  "(extract_image_id_from_filename py_int filename = Some n \<longleftrightarrow>
      3 \<le> length (split_on (CHR ''_'') filename) \<and>
      py_int (takeWhile (\<lambda>c. c \<noteq> CHR ''.'') (split_on (CHR ''_'') filename ! 2)) = Some n)
   \<and> (extract_image_id_from_filename py_int filename = None \<longleftrightarrow>
      \<not> (3 \<le> length (split_on (CHR ''_'') filename) \<and>
         (\<exists>m. py_int (takeWhile (\<lambda>c. c \<noteq> CHR ''.'') (split_on (CHR ''_'') filename ! 2)) = Some m)))
   \<and> length (split_on (CHR ''_'') filename) = Suc (count_list filename (CHR ''_''))"
  by (auto simp add: extract_unfold length_split_on)

text \<open>The two filenames of the specification.\<close>

theorem extract_id_total_witness:
  "extract_image_id_from_filename decimal_int ''DJI_0001_0042.JPG'' = Some 42
   \<and> extract_image_id_from_filename decimal_int ''badname.jpg'' = None"
proof -
  have a: "split_on (CHR ''_'') ''DJI_0001_0042.JPG'' = [''DJI'', ''0001'', ''0042.JPG'']"
    by simp
  have b: "decimal_int ''0042'' = Some 42" by (simp add: decimal_int_def)
  have c: "split_on (CHR ''_'') ''badname.jpg'' = [''badname.jpg'']" by simp
  from extract_id_total [of decimal_int "''DJI_0001_0042.JPG''" 42]
    extract_id_total [of decimal_int "''badname.jpg''"] a b c
  show ?thesis by simp
qed

section \<open>Matching an image to its capture entry\<close>

lemma index_of_Some_iff:
  "index_of xs x = Some k \<longleftrightarrow> k < length xs \<and> xs ! k = x \<and> (\<forall>j<k. xs ! j \<noteq> x)"
proof (induction xs arbitrary: k)
  case Nil
  then show ?case by simp
next
  case (Cons y ys)
  show ?case
  proof (cases "y = x")
    case True
    then show ?thesis by (cases k) auto
  next
    case False
    show ?thesis
    proof (cases k)
      case 0
      with False show ?thesis by auto
    next
      case (Suc k')
      have "(\<forall>j<Suc k'. (y # ys) ! j \<noteq> x) \<longleftrightarrow> (\<forall>j<k'. ys ! j \<noteq> x)"
        using False by (auto simp add: less_Suc_eq_0_disj)
      with Suc False Cons.IH [of k'] show ?thesis by auto
    qed
  qed
qed

lemma index_of_prefix:
  assumes "index_of xs x = Some k" "take (Suc k) ys = take (Suc k) xs"
  shows "index_of ys x = Some k"
proof -
  from assms(1) have k: "k < length xs" "xs ! k = x" "\<forall>j<k. xs ! j \<noteq> x"
    by (simp_all add: index_of_Some_iff)
  have len: "k < length ys"
  proof (rule ccontr)
    assume "\<not> k < length ys"
    then have "length (take (Suc k) ys) \<le> k" by simp
    moreover have "length (take (Suc k) xs) = Suc k" using k(1) by simp
    ultimately show False using assms(2) by simp
  qed
  have nth: "ys ! j = xs ! j" if "j \<le> k" for j
  proof -
    have "take (Suc k) ys ! j = take (Suc k) xs ! j" using assms(2) by simp
    then show ?thesis using that by simp
  qed
  show ?thesis
    unfolding index_of_Some_iff using k len nth by auto
qed

lemma nth_prefix:
  assumes "take (Suc k) ys = take (Suc k) xs"
  shows "(k < length ys \<longleftrightarrow> k < length xs) \<and> (k < length xs \<longrightarrow> ys ! k = xs ! k)"
proof -
  have "length (take (Suc k) ys) = length (take (Suc k) xs)" using assms by simp
  then have l: "k < length ys \<longleftrightarrow> k < length xs" by (auto simp add: min_def split: if_splits)
  have "take (Suc k) ys ! k = take (Suc k) xs ! k" using assms by simp
  then have "ys ! k = xs ! k" by simp
  with l show ?thesis by simp
qed

text \<open>
  The loop treats each image on its own: its outcome is that of \<^const>\<open>locate_image\<close> for
  the image's id, and the order of the images is kept in both lists.
\<close>

lemma match_images_locate:
  "match_images images image_ids image_times offsets rinex_data (output_data, unmatched_images) =
     (output_data @
        List.map_filter
          (\<lambda>(image_file, image_id).
             case locate_image image_id image_ids image_times offsets rinex_data of
               Inr (e, n, v) \<Rightarrow> Some (image_file, e, n, v)
             | Inl _ \<Rightarrow> None) images,
      unmatched_images @
        filter (\<lambda>(image_file, image_id).
             isl (locate_image image_id image_ids image_times offsets rinex_data)) images)"
proof (induction images arbitrary: output_data unmatched_images)
  case Nil
  then show ?case by (simp add: map_filter_simps)
next
  case (Cons image images)
  obtain image_file image_id where image: "image = (image_file, image_id)" by (cases image)
  show ?case
  proof (cases "locate_image image_id image_ids image_times offsets rinex_data")
    case (Inl err)
    then show ?thesis unfolding image by (simp add: Cons.IH map_filter_simps)
  next
    case (Inr pos)
    obtain e n v where pos: "pos = (e, n, v)" by (cases pos)
    from Inr show ?thesis unfolding image pos by (simp add: Cons.IH map_filter_simps)
  qed
qed

text \<open>
  C9 (first occurrence wins). When \<open>k\<close> is the smallest index at which the capture log's
  id sequence holds the image's id, the image is located from \<open>image_times[k]\<close> and
  \<open>offsets[k]\<close>; and the result is the same for any capture log that agrees with this one
  on the entries \<open>0\<close> to \<open>k\<close>, whatever its later entries are.
\<close>

theorem first_occurrence_wins:
  "k < length image_ids \<and> image_ids ! k = Num (of_int image_id) \<and>
   (\<forall>j<k. image_ids ! j \<noteq> Num (of_int image_id)) \<longrightarrow>
     locate_image image_id image_ids image_times offsets rinex_data =
       (if k < length image_times \<and> k < length offsets
        then interpolate_coordinates (image_times ! k) rinex_data (offsets ! k)
        else Inl IndexError)
     \<and> (\<forall>ids' times' offsets'.
          take (Suc k) ids' = take (Suc k) image_ids \<and>
          take (Suc k) times' = take (Suc k) image_times \<and>
          take (Suc k) offsets' = take (Suc k) offsets \<longrightarrow>
          locate_image image_id ids' times' offsets' rinex_data =
            locate_image image_id image_ids image_times offsets rinex_data)"
proof (intro impI conjI allI)
  assume a: "k < length image_ids \<and> image_ids ! k = Num (of_int image_id) \<and>
   (\<forall>j<k. image_ids ! j \<noteq> Num (of_int image_id))"
  then have idx: "index_of image_ids (Num (of_int image_id)) = Some k"
    by (simp add: index_of_Some_iff)
  then show "locate_image image_id image_ids image_times offsets rinex_data =
       (if k < length image_times \<and> k < length offsets
        then interpolate_coordinates (image_times ! k) rinex_data (offsets ! k)
        else Inl IndexError)"
    by (simp add: locate_image_def Let_def)
  fix ids' :: "cell list" and times' :: "real list" and offsets' :: "real list list"
  assume p: "take (Suc k) ids' = take (Suc k) image_ids \<and>
          take (Suc k) times' = take (Suc k) image_times \<and>
          take (Suc k) offsets' = take (Suc k) offsets"
  then have idx': "index_of ids' (Num (of_int image_id)) = Some k"
    using index_of_prefix [OF idx] by simp
  from p nth_prefix [of k times' image_times] nth_prefix [of k offsets' offsets]
  show "locate_image image_id ids' times' offsets' rinex_data =
            locate_image image_id image_ids image_times offsets rinex_data"
    by (auto simp add: locate_image_def Let_def idx idx')
qed

text \<open>
  The id 42 occurs at the indices 1 and 2; the result comes from index 1, and is the same
  when the later entries are changed or dropped.
\<close>

theorem first_occurrence_wins_witness:
  "locate_image 42 [Num 7, Num 42, Num 42] [1, 2, 3] [[0, 0, 0], [1000, 2000, 3000], [5, 5, 5]]
      [mk_sample 3600 1 0 0 0, mk_sample 10800 3 10 20 30, mk_sample 14400 4 0 0 0]
     = Inr (6, 12, 12)
   \<and> locate_image 42 [Num 7, Num 42, Num 9] [1, 2, 9] [[0, 0, 0], [1000, 2000, 3000]]
      [mk_sample 3600 1 0 0 0, mk_sample 10800 3 10 20 30, mk_sample 14400 4 0 0 0]
     = Inr (6, 12, 12)"
proof -
  let ?traj = "[mk_sample 3600 1 0 0 0, mk_sample 10800 3 10 20 30, mk_sample 14400 4 0 0 0] :: real sample list"
  let ?ids = "[Num 7, Num 42, Num 42]"
  let ?times = "[1, 2, 3] :: real list"
  let ?offs = "[[0, 0, 0], [1000, 2000, 3000], [5, 5, 5]] :: real list list"
  have h: "(1::nat) < length ?ids \<and> ?ids ! 1 = Num (of_int 42) \<and>
      (\<forall>j<1. ?ids ! j \<noteq> Num (of_int 42))" by simp
  have i: "interpolate_coordinates 2 ?traj [1000, 2000, 3000] = Inr (6, 12, 12)"
    by (simp add: interpolate_coordinates_def interpolate_scan.simps mk_sample_def)
  note th = first_occurrence_wins [of 1 ?ids 42 ?times ?offs ?traj, rule_format, OF h]
  from th [THEN conjunct1] i
  have first: "locate_image 42 ?ids ?times ?offs ?traj = Inr (6, 12, 12)" by simp
  have "locate_image 42 [Num 7, Num 42, Num 9] [1, 2, 9] [[0, 0, 0], [1000, 2000, 3000]] ?traj =
      locate_image 42 ?ids ?times ?offs ?traj"
    by (rule th [THEN conjunct2, rule_format]) simp
  with first show ?thesis by simp
qed

section \<open>The two parsers\<close>

text \<open>
  A row is rejected exactly when it fails what the parser asks of it; one rejected row
  ends the first loop with the exception, and the \<open>except\<close> clause returns the empty
  result. The rollover scan changes hours only.
\<close>

lemma those_map:
  "those (map f xs) = (if list_all (\<lambda>x. f x \<noteq> None) xs then Some (map (\<lambda>x. the (f x)) xs) else None)"
  by (induction xs) (auto split: option.splits)

lemma parse_hms_None_iff: "parse_hms py_float c = None \<longleftrightarrow> \<not> time_field_ok py_float c"
proof (cases c)
  case (Str s)
  let ?parts = "split_on (CHR '':'') s"
  show ?thesis
  proof (cases "list_all (\<lambda>part. py_float part \<noteq> None) ?parts")
    case False
    then show ?thesis
      using Str by (simp add: parse_hms_def time_field_ok_def those_map)
  next
    case ok: True
    show ?thesis
    proof (cases "length ?parts = 3")
      case True
      then obtain a b d where "?parts = [a, b, d]"
        by (auto simp add: numeral_3_eq_3 length_Suc_conv)
      then show ?thesis
        using Str ok by (simp add: parse_hms_def time_field_ok_def those_map Let_def)
    next
      case False
      then have "length (map (\<lambda>x. the (py_float x)) ?parts) \<noteq> 3" by simp
      then have "map (\<lambda>x. the (py_float x)) ?parts \<noteq> [h, m, sec]" for h m sec
        by auto
      then show ?thesis
        using Str ok False
        by (auto simp add: parse_hms_def time_field_ok_def those_map Let_def split: list.splits)
    qed
  qed
qed (simp_all add: parse_hms_def time_field_ok_def)

lemma rinex_row_None_iff: "rinex_row py_float df i = None \<longleftrightarrow> \<not> rinex_row_ok py_float df i"
proof -
  have "time_field_ok py_float c" if "parse_hms py_float c = Some r" for c r
    using that parse_hms_None_iff [of py_float c] by auto
  moreover have "\<not> time_field_ok py_float c" if "parse_hms py_float c = None" for c
    using that parse_hms_None_iff [of py_float c] by auto
  ultimately show ?thesis
    by (auto simp add: rinex_row_def rinex_row_ok_def split: option.splits prod.splits)
qed

lemma rinex_row_coords:
  assumes "rinex_row py_float df i = Some r"
  shows "east r = df ! i ! 24 \<and> north r = df ! i ! 25 \<and> elevation r = df ! i ! 33"
  using assms
  by (auto simp add: rinex_row_def iloc_def mk_sample_def split: option.splits prod.splits if_splits)

lemma rinex_rows_fail:
  "i \<in> set todo \<Longrightarrow> rinex_row py_float df i = None \<Longrightarrow> rinex_rows py_float df acc todo = None"
  by (induction todo arbitrary: acc) (auto split: option.splits)

lemma rinex_rows_ok:
  "\<forall>i\<in>set todo. rinex_row py_float df i \<noteq> None \<Longrightarrow>
   rinex_rows py_float df acc todo = Some (acc @ map (\<lambda>i. the (rinex_row py_float df i)) todo)"
  by (induction todo arbitrary: acc) (auto split: option.splits)

lemma rinex_add_24_fields:
  "length (rinex_add_24 f t xs) = length xs \<and>
   (\<forall>i<length xs. east (rinex_add_24 f t xs ! i) = east (xs ! i) \<and>
       north (rinex_add_24 f t xs ! i) = north (xs ! i) \<and>
       elevation (rinex_add_24 f t xs ! i) = elevation (xs ! i))"
  using foldl_update_range [of "length xs" xs "\<lambda>r. r\<lparr>time_hours := f (time_hours r)\<rparr>" t]
  by (auto simp add: rinex_add_24_def)

lemma rinex_rollover_fields:
  "length (rinex_rollover f k xs) = length xs \<and>
   (\<forall>i<length xs. east (rinex_rollover f k xs ! i) = east (xs ! i) \<and>
       north (rinex_rollover f k xs ! i) = north (xs ! i) \<and>
       elevation (rinex_rollover f k xs ! i) = elevation (xs ! i))"
proof (induction f k xs rule: rinex_rollover.induct)
  case (1 f t rinex_processed)
  show ?case
  proof (cases "t < length rinex_processed")
    case False
    then show ?thesis by (subst (1 2 3 4) rinex_rollover.simps) simp
  next
    case True
    show ?thesis
    proof (cases "time_hours (rinex_processed ! t) - time_hours (rinex_processed ! (t - 1)) \<le> 0")
      case trig: True
      then have "rinex_rollover f t rinex_processed = rinex_add_24 f t rinex_processed"
        using True by (subst rinex_rollover.simps) (simp add: Let_def)
      then show ?thesis using rinex_add_24_fields [of f t rinex_processed] by simp
    next
      case no: False
      then have "rinex_rollover f t rinex_processed = rinex_rollover f (t + 1) rinex_processed"
        using True by (subst rinex_rollover.simps) (simp add: Let_def)
      then show ?thesis using "1.IH" [OF True refl refl no] by simp
    qed
  qed
qed

lemma first_token_Str: "first_token (Str s) = Some (takeWhile (\<lambda>ch. ch \<noteq> CHR '','') s)"
  using hd_split_on [of "CHR '',''" s] split_on_nonempty [of "CHR '',''" s]
  by (cases "split_on (CHR '','') s") (auto simp add: first_token_def)

lemma bind_first_token_None_iff:
  "(case Option.bind c first_token of None \<Rightarrow> True | Some tok \<Rightarrow> py_float tok = None)
     \<longleftrightarrow> \<not> offset_field_ok py_float c"
proof (cases c)
  case None
  then show ?thesis by (simp add: offset_field_ok_def)
next
  case (Some x)
  then show ?thesis
    by (cases x) (simp_all add: offset_field_ok_def first_token_Str, simp_all add: first_token_def)
qed

lemma timestamp_row_None_iff:
  "timestamp_row py_float df i = None \<longleftrightarrow> \<not> timestamp_row_ok py_float df i"
proof (cases "\<exists>image_id seconds. iloc df i 0 = Some image_id \<and> iloc df i 1 = Some (Num seconds)")
  case False
  then show ?thesis
    by (auto simp add: timestamp_row_def timestamp_row_ok_def split: option.splits cell.splits)
next
  case True
  then obtain image_id seconds where c: "iloc df i 0 = Some image_id" "iloc df i 1 = Some (Num seconds)"
    by blast
  show ?thesis
    unfolding timestamp_row_def timestamp_row_ok_def c
    using bind_first_token_None_iff [where c = "iloc df i 4" and py_float = py_float]
      bind_first_token_None_iff [where c = "iloc df i 3" and py_float = py_float]
      bind_first_token_None_iff [where c = "iloc df i 5" and py_float = py_float]
    by (auto simp add: Let_def split: option.splits)
qed

lemma timestamp_row_id:
  assumes "timestamp_row py_float df i = Some (image_id, image_time, offset)"
  shows "image_id = df ! i ! 0"
  using assms
  by (auto simp add: timestamp_row_def iloc_def Let_def split: option.splits cell.splits if_splits)

lemma timestamp_rows_fail:
  "i \<in> set todo \<Longrightarrow> timestamp_row py_float df i = None \<Longrightarrow>
   timestamp_rows py_float df acc todo = None"
proof (induction todo arbitrary: acc)
  case Nil
  then show ?case by simp
next
  case (Cons j todo)
  obtain ts ids offs where acc: "acc = (ts, ids, offs)" by (cases acc)
  show ?case
    using Cons unfolding acc by (auto split: option.splits)
qed

lemma timestamp_rows_ok:
  "\<forall>i\<in>set todo. timestamp_row py_float df i \<noteq> None \<Longrightarrow>
   timestamp_rows py_float df (ts, ids, offs) todo =
     Some (ts @ map (\<lambda>i. fst (snd (the (timestamp_row py_float df i)))) todo,
           ids @ map (\<lambda>i. fst (the (timestamp_row py_float df i))) todo,
           offs @ map (\<lambda>i. snd (snd (the (timestamp_row py_float df i)))) todo)"
  by (induction todo arbitrary: ts ids offs) (auto split: option.splits)

lemma length_unwrap_first: "length (unwrap_first R f hs) = length hs"
  by (auto simp add: unwrap_first_def split: option.splits)

lemma length_timestamp_rollover: "length (timestamp_rollover f k hs) = length hs"
  by (auto simp add: timestamp_rollover_find split: option.splits)

lemma process_rinex_fail:
  assumes "i < length df" "\<not> rinex_row_ok py_float df i"
  shows "process_rinex_data py_float add_24 (Some df) = []"
proof -
  have "i \<in> set [0..<length df]" using assms(1) by simp
  moreover have "rinex_row py_float df i = None"
    using assms(2) by (simp add: rinex_row_None_iff)
  ultimately have "rinex_rows py_float df [] [0..<length df] = None"
    by (rule rinex_rows_fail)
  then show ?thesis by (simp add: process_rinex_data_def)
qed

lemma process_rinex_ok:
  assumes "\<forall>i<length df. rinex_row_ok py_float df i"
  shows "length (process_rinex_data py_float add_24 (Some df)) = length df \<and>
     (\<forall>i<length df.
        east (process_rinex_data py_float add_24 (Some df) ! i) = df ! i ! 24 \<and>
        north (process_rinex_data py_float add_24 (Some df) ! i) = df ! i ! 25 \<and>
        elevation (process_rinex_data py_float add_24 (Some df) ! i) = df ! i ! 33)"
proof -
  let ?rows = "map (\<lambda>i. the (rinex_row py_float df i)) [0..<length df]"
  have ok: "\<forall>i\<in>set [0..<length df]. rinex_row py_float df i \<noteq> None"
    using assms by (simp add: rinex_row_None_iff)
  then have "rinex_rows py_float df [] [0..<length df] = Some ([] @ ?rows)"
    by (rule rinex_rows_ok)
  then have res: "process_rinex_data py_float add_24 (Some df) = rinex_rollover add_24 1 ?rows"
    by (simp add: process_rinex_data_def)
  have len: "length ?rows = length df" by simp
  have row: "east (?rows ! i) = df ! i ! 24 \<and> north (?rows ! i) = df ! i ! 25 \<and>
      elevation (?rows ! i) = df ! i ! 33" if "i < length df" for i
  proof -
    have "rinex_row py_float df i \<noteq> None" using ok that by simp
    then obtain r where r: "rinex_row py_float df i = Some r" by auto
    then have "?rows ! i = r" using that by simp
    with rinex_row_coords [OF r] show ?thesis by simp
  qed
  from rinex_rollover_fields [of add_24 1 ?rows] len row
  show ?thesis unfolding res by simp
qed

lemma process_timestamp_fail:
  assumes "i < length df" "\<not> timestamp_row_ok py_float df i"
  shows "process_timestamp_data py_float add_24 (Some df) = ([], [], [])"
proof -
  have "i \<in> set [0..<length df]" using assms(1) by simp
  moreover have "timestamp_row py_float df i = None"
    using assms(2) by (simp add: timestamp_row_None_iff)
  ultimately have "timestamp_rows py_float df ([], [], []) [0..<length df] = None"
    by (rule timestamp_rows_fail)
  then show ?thesis by (simp add: process_timestamp_data_def)
qed

lemma process_timestamp_ok:
  assumes "\<forall>i<length df. timestamp_row_ok py_float df i"
  shows "(case process_timestamp_data py_float add_24 (Some df) of
      (image_times, image_ids, offsets) \<Rightarrow>
        length image_times = length df \<and> length image_ids = length df \<and>
        length offsets = length df \<and> image_ids = map (\<lambda>row. row ! 0) df)"
proof -
  have ok: "\<forall>i\<in>set [0..<length df]. timestamp_row py_float df i \<noteq> None"
    using assms by (simp add: timestamp_row_None_iff)
  have ids: "map (\<lambda>i. fst (the (timestamp_row py_float df i))) [0..<length df] =
      map (\<lambda>row. row ! 0) df"
  proof (rule nth_equalityI)
    show "length (map (\<lambda>i. fst (the (timestamp_row py_float df i))) [0..<length df]) =
        length (map (\<lambda>row. row ! 0) df)" by simp
    fix i assume "i < length (map (\<lambda>i. fst (the (timestamp_row py_float df i))) [0..<length df])"
    then have i: "i < length df" by simp
    have "timestamp_row py_float df i \<noteq> None" using ok i by simp
    then obtain a b c where r: "timestamp_row py_float df i = Some (a, b, c)"
      by (cases "timestamp_row py_float df i") auto
    from timestamp_row_id [OF r] r i
    show "map (\<lambda>i. fst (the (timestamp_row py_float df i))) [0..<length df] ! i =
        map (\<lambda>row. row ! 0) df ! i" by simp
  qed
  from timestamp_rows_ok [OF ok, of "[]" "[]" "[]"] ids
  show ?thesis
    by (simp add: process_timestamp_data_def length_timestamp_rollover)
qed

lemma pos_row_cells:
  "length (pos_row hms e n v) = 34"
  "pos_row hms e n v ! 5 = hms"
  "pos_row hms e n v ! 24 = e"
  "pos_row hms e n v ! 25 = n"
  "pos_row hms e n v ! 33 = v"
  by (simp_all add: pos_row_def nth_append)

lemma digits_examples:
  "decimal_float ''00'' = Some 0" "decimal_float ''01'' = Some 1" "decimal_float ''1'' = Some 1"
  "decimal_float ''2'' = Some 2" "decimal_float ''3'' = Some 3"
  by (simp_all add: decimal_float_def)

lemma split_examples:
  "split_on (CHR '':'') ''01:00:00'' = [''01'', ''00'', ''00'']"
  "split_on (CHR '':'') ''01:00'' = [''01'', ''00'']"
  by simp_all

text \<open>
  What the two parsers return: nothing when reading raised or a row is rejected, and
  otherwise one entry per row, with the coordinate cells and the ids as read.
\<close>

lemma parse_all_or_nothing:
  "process_rinex_data py_float add_24 None = []
   \<and> ((\<exists>i<length df. \<not> rinex_row_ok py_float df i) \<longrightarrow>
        process_rinex_data py_float add_24 (Some df) = [])
   \<and> ((\<forall>i<length df. rinex_row_ok py_float df i) \<longrightarrow>
        length (process_rinex_data py_float add_24 (Some df)) = length df \<and>
        (\<forall>i<length df.
           east (process_rinex_data py_float add_24 (Some df) ! i) = df ! i ! 24 \<and>
           north (process_rinex_data py_float add_24 (Some df) ! i) = df ! i ! 25 \<and>
           elevation (process_rinex_data py_float add_24 (Some df) ! i) = df ! i ! 33))
   \<and> process_timestamp_data py_float add_24 None = ([], [], [])
   \<and> ((\<exists>i<length capture_log. \<not> timestamp_row_ok py_float capture_log i) \<longrightarrow>
        process_timestamp_data py_float add_24 (Some capture_log) = ([], [], []))
   \<and> ((\<forall>i<length capture_log. timestamp_row_ok py_float capture_log i) \<longrightarrow>
        (case process_timestamp_data py_float add_24 (Some capture_log) of
           (image_times, image_ids, offsets) \<Rightarrow>
             length image_times = length capture_log \<and> length image_ids = length capture_log \<and>
             length offsets = length capture_log \<and> image_ids = map (\<lambda>row. row ! 0) capture_log))"
proof (intro conjI impI)
  show "process_rinex_data py_float add_24 None = []" by (simp add: process_rinex_data_def)
  show "process_timestamp_data py_float add_24 None = ([], [], [])"
    by (simp add: process_timestamp_data_def)
next
  assume "\<exists>i<length df. \<not> rinex_row_ok py_float df i"
  then show "process_rinex_data py_float add_24 (Some df) = []"
    using process_rinex_fail by blast
next
  assume "\<forall>i<length df. rinex_row_ok py_float df i"
  then show "length (process_rinex_data py_float add_24 (Some df)) = length df"
    and "\<forall>i<length df.
           east (process_rinex_data py_float add_24 (Some df) ! i) = df ! i ! 24 \<and>
           north (process_rinex_data py_float add_24 (Some df) ! i) = df ! i ! 25 \<and>
           elevation (process_rinex_data py_float add_24 (Some df) ! i) = df ! i ! 33"
    using process_rinex_ok [of df py_float add_24] by simp_all
next
  assume "\<exists>i<length capture_log. \<not> timestamp_row_ok py_float capture_log i"
  then show "process_timestamp_data py_float add_24 (Some capture_log) = ([], [], [])"
    using process_timestamp_fail by blast
next
  assume "\<forall>i<length capture_log. timestamp_row_ok py_float capture_log i"
  then show "case process_timestamp_data py_float add_24 (Some capture_log) of
           (image_times, image_ids, offsets) \<Rightarrow>
             length image_times = length capture_log \<and> length image_ids = length capture_log \<and>
             length offsets = length capture_log \<and> image_ids = map (\<lambda>row. row ! 0) capture_log"
    by (rule process_timestamp_ok)
qed

text \<open>
  A second row with the time \<open>01:00\<close> empties a two-row trajectory, and a second entry
  whose seconds cell is a text empties a two-entry capture log; the first row and the first
  entry alone are parsed.
\<close>

lemma parse_all_or_nothing_examples:
  "process_rinex_data decimal_float (\<lambda>h. h + 24)
     (Some [pos_row (Str ''01:00:00'') (Num 1) (Num 2) (Num 3),
            pos_row (Str ''01:00'') (Num 1) (Num 2) (Num 3)]) = []
   \<and> length (process_rinex_data decimal_float (\<lambda>h. h + 24)
     (Some [pos_row (Str ''01:00:00'') (Num 1) (Num 2) (Num 3)])) = 1
   \<and> process_timestamp_data decimal_float (\<lambda>h. h + 24)
       (Some [[Num 42, Num 90000, NaN, Str ''2,N'', Str ''1,E'', Str ''3,V''],
              [Num 43, Str ''x'', NaN, Str ''2,N'', Str ''1,E'', Str ''3,V'']]) = ([], [], [])
   \<and> fst (snd (process_timestamp_data decimal_float (\<lambda>h. h + 24)
       (Some [[Num 42, Num 90000, NaN, Str ''2,N'', Str ''1,E'', Str ''3,V'']]))) = [Num 42]"
proof -
  let ?good = "pos_row (Str ''01:00:00'') (Num 1) (Num 2) (Num 3)"
  let ?bad = "pos_row (Str ''01:00'') (Num 1) (Num 2) (Num 3)"
  let ?entry = "[Num 42, Num 90000, NaN, Str ''2,N'', Str ''1,E'', Str ''3,V'']"
  let ?broken = "[Num 43, Str ''x'', NaN, Str ''2,N'', Str ''1,E'', Str ''3,V'']"
  have good: "rinex_row_ok decimal_float [?good] 0"
    unfolding rinex_row_ok_def iloc_def
    by (simp add: pos_row_cells time_field_ok_def split_examples digits_examples)
  have bad: "\<not> rinex_row_ok decimal_float [?good, ?bad] 1"
    unfolding rinex_row_ok_def iloc_def
    by (simp add: pos_row_cells time_field_ok_def split_examples)
  have entry: "timestamp_row_ok decimal_float [?entry] 0"
    by (simp add: timestamp_row_ok_def iloc_def offset_field_ok_def digits_examples)
  have broken: "\<not> timestamp_row_ok decimal_float [?entry, ?broken] 1"
    by (simp add: timestamp_row_ok_def iloc_def)
  have a: "\<exists>i<length [?good, ?bad]. \<not> rinex_row_ok decimal_float [?good, ?bad] i"
    using bad by (intro exI [of _ 1]) simp
  have b: "\<forall>i<length [?good]. rinex_row_ok decimal_float [?good] i"
    using good by simp
  have c: "\<exists>i<length [?entry, ?broken]. \<not> timestamp_row_ok decimal_float [?entry, ?broken] i"
    using broken by (intro exI [of _ 1]) simp
  have d: "\<forall>i<length [?entry]. timestamp_row_ok decimal_float [?entry] i"
    using entry by simp
  note t1 = parse_all_or_nothing [of decimal_float "\<lambda>h. h + 24" "[?good, ?bad]" "[?entry, ?broken]"]
  note t2 = parse_all_or_nothing [of decimal_float "\<lambda>h. h + 24" "[?good]" "[?entry]"]
  have r1: "process_rinex_data decimal_float (\<lambda>h. h + 24) (Some [?good, ?bad]) = []"
    using t1 a by blast
  have r2: "length (process_rinex_data decimal_float (\<lambda>h. h + 24) (Some [?good])) = length [?good]"
    using t2 b by blast
  have r3: "process_timestamp_data decimal_float (\<lambda>h. h + 24) (Some [?entry, ?broken]) = ([], [], [])"
    using t1 c by blast
  note r4 = t2 [THEN conjunct2, THEN conjunct2, THEN conjunct2, THEN conjunct2,
      THEN conjunct2, THEN mp, OF d]
  from r4 have r5: "fst (snd (process_timestamp_data decimal_float (\<lambda>h. h + 24) (Some [?entry]))) = [Num 42]"
    by (cases "process_timestamp_data decimal_float (\<lambda>h. h + 24) (Some [?entry])") simp
  from r1 r2 r3 r5 show ?thesis by simp
qed

text \<open>Two rows with the same time of day, in a capture log and in a positioning table.\<close>

lemma image_time_of_3600: "image_time_of 3600 = 1"
proof -
  have "\<lfloor>3600 / 3600 / 24 :: real\<rfloor> = 0" by (simp add: floor_eq_iff)
  then show ?thesis by (simp add: image_time_of_def py_int_of_float_def)
qed

lemma capture_row_example:
  "timestamp_row decimal_float
     [[Num 1, Num 3600, Num 0, Str ''2,N'', Str ''1,E'', Str ''3,V''],
      [Num 2, Num 3600, Num 0, Str ''2,N'', Str ''1,E'', Str ''3,V'']] 0 =
     Some (Num 1, 1, [1, 2, 3])"
  "timestamp_row decimal_float
     [[Num 1, Num 3600, Num 0, Str ''2,N'', Str ''1,E'', Str ''3,V''],
      [Num 2, Num 3600, Num 0, Str ''2,N'', Str ''1,E'', Str ''3,V'']] (Suc 0) =
     Some (Num 2, 1, [1, 2, 3])"
  by (simp_all add: timestamp_row_def iloc_def first_token_Str image_time_of_3600
      digits_examples)

lemma pos_row_example:
  "rinex_row decimal_float
     [pos_row (Str ''01:00:00'') (Num 1) (Num 2) (Num 3),
      pos_row (Str ''01:00:00'') (Num 1) (Num 2) (Num 3)] 0 =
     Some (mk_sample 3600 1 (Num 1) (Num 2) (Num 3))"
  "rinex_row decimal_float
     [pos_row (Str ''01:00:00'') (Num 1) (Num 2) (Num 3),
      pos_row (Str ''01:00:00'') (Num 1) (Num 2) (Num 3)] (Suc 0) =
     Some (mk_sample 3600 1 (Num 1) (Num 2) (Num 3))"
proof -
  have p: "parse_hms decimal_float (Str ''01:00:00'') = Some (3600, 1)"
    unfolding parse_hms_def cell.case split_examples by (simp add: digits_examples)
  show "rinex_row decimal_float
     [pos_row (Str ''01:00:00'') (Num 1) (Num 2) (Num 3),
      pos_row (Str ''01:00:00'') (Num 1) (Num 2) (Num 3)] 0 =
     Some (mk_sample 3600 1 (Num 1) (Num 2) (Num 3))"
    by (simp add: rinex_row_def iloc_def pos_row_cells p)
  show "rinex_row decimal_float
     [pos_row (Str ''01:00:00'') (Num 1) (Num 2) (Num 3),
      pos_row (Str ''01:00:00'') (Num 1) (Num 2) (Num 3)] (Suc 0) =
     Some (mk_sample 3600 1 (Num 1) (Num 2) (Num 3))"
    by (simp add: rinex_row_def iloc_def pos_row_cells p)
qed

section \<open>Properties of the parsers\<close>

text \<open>
  C4 (unwrap monotonicity), as the code has it. One correction is made, at the first
  trigger index \<open>t\<close>. For finite hours and a monotone addition of 24 (the float addition
  is), the corrected sequence is non-decreasing over every adjacent pair when there is no
  trigger, and when the input from \<open>t\<close> on is itself non-decreasing and \<open>hours[t-1]\<close> is at
  most the corrected \<open>hours[t]\<close>; this holds for the trajectory parser and for the
  capture-log parser, each with its own trigger.
\<close>

theorem unwrap_monotone_if:
  "mono add_24 \<longrightarrow>
     ((case first_trigger (\<lambda>cur past. cur \<le> past) (map time_hours samples) of
         None \<Rightarrow> True
       | Some t \<Rightarrow> adjacent_nondecreasing (drop t (map time_hours samples)) \<and>
           map time_hours samples ! (t - 1) \<le> add_24 (map time_hours samples ! t))
      \<longrightarrow> adjacent_nondecreasing (map time_hours (rinex_rollover add_24 1 samples)))
   \<and> ((case first_trigger (\<lambda>cur past. cur < past) hours of
         None \<Rightarrow> True
       | Some t \<Rightarrow> adjacent_nondecreasing (drop t hours) \<and> hours ! (t - 1) \<le> add_24 (hours ! t))
      \<longrightarrow> adjacent_nondecreasing (timestamp_rollover add_24 1 hours))"
proof (intro impI conjI)
  assume f: "mono add_24"
  assume "case first_trigger (\<lambda>cur past. cur \<le> past) (map time_hours samples) of
         None \<Rightarrow> True
       | Some t \<Rightarrow> adjacent_nondecreasing (drop t (map time_hours samples)) \<and>
           map time_hours samples ! (t - 1) \<le> add_24 (map time_hours samples ! t)"
  then have "case first_trigger (\<lambda>cur past. cur \<le> past) (map time_hours samples) of
         None \<Rightarrow> True
       | Some t \<Rightarrow> sorted (drop t (map time_hours samples)) \<and>
           map time_hours samples ! (t - 1) \<le> add_24 (map time_hours samples ! t)"
    by (simp only: adjacent_nondecreasing_sorted)
  then have "sorted (unwrap_first (\<lambda>cur past. cur \<le> past) add_24 (map time_hours samples))"
    using f by (intro unwrap_sorted_if) simp_all
  then show "adjacent_nondecreasing (map time_hours (rinex_rollover add_24 1 samples))"
    by (simp only: adjacent_nondecreasing_sorted rinex_rollover_unwrap)
next
  assume f: "mono add_24"
  assume "case first_trigger (\<lambda>cur past. cur < past) hours of
         None \<Rightarrow> True
       | Some t \<Rightarrow> adjacent_nondecreasing (drop t hours) \<and> hours ! (t - 1) \<le> add_24 (hours ! t)"
  then have "case first_trigger (\<lambda>cur past. cur < past) hours of
         None \<Rightarrow> True
       | Some t \<Rightarrow> sorted (drop t hours) \<and> hours ! (t - 1) \<le> add_24 (hours ! t)"
    by (simp only: adjacent_nondecreasing_sorted)
  then have "sorted (unwrap_first (\<lambda>cur past. cur < past) add_24 hours)"
    using f by (intro unwrap_sorted_if) simp_all
  then show "adjacent_nondecreasing (timestamp_rollover add_24 1 hours)"
    by (simp only: adjacent_nondecreasing_sorted timestamp_rollover_unwrap)
qed

text \<open>The hours \<open>23.8, 23.95, 0.05, 0.2\<close> have one rollover, at index 2.\<close>

theorem unwrap_monotone_if_witness:
  "adjacent_nondecreasing (map time_hours (rinex_rollover (\<lambda>h. h + 24) 1
      [mk_sample 0 (119/5) 0 0 0, mk_sample 0 (479/20) 0 0 0,
       mk_sample 0 (1/20) 0 0 0, mk_sample 0 (1/5) (0::real) 0 0]))
   \<and> adjacent_nondecreasing (timestamp_rollover (\<lambda>h. h + 24) 1 [119/5, 479/20, 1/20, 1/5])"
proof -
  let ?s = "[mk_sample 0 (119/5) 0 0 0, mk_sample 0 (479/20) 0 0 0,
       mk_sample 0 (1/20) 0 0 0, mk_sample 0 (1/5) (0::real) 0 0]"
  have m: "mono (\<lambda>h :: real. h + 24)" by (rule monoI) simp
  have hs: "map time_hours ?s = [119/5, 479/20, 1/20, 1/5]" by (simp add: mk_sample_def)
  have n: "[1..<length [119/5, 479/20, 1/20, 1/5 :: real]] = [1, 2, 3]"
    by (simp add: upt_rec)
  have a: "first_trigger (\<lambda>cur past. cur \<le> past) [119/5, 479/20, 1/20, 1/5] = Some 2"
    unfolding first_trigger_def n by simp
  have b: "first_trigger (\<lambda>cur past. cur < past) [119/5, 479/20, 1/20, 1/5] = Some 2"
    unfolding first_trigger_def n by simp
  have c: "adjacent_nondecreasing (drop 2 [119/5, 479/20, 1/20, 1/5])"
    by (simp add: adjacent_nondecreasing_def upt_rec)
  have d: "[119/5, 479/20, 1/20, 1/5 :: real] ! (2 - 1) \<le> [119/5, 479/20, 1/20, 1/5] ! 2 + 24"
    by simp
  note th = unwrap_monotone_if [of "\<lambda>h. h + 24" ?s "[119/5, 479/20, 1/20, 1/5]",
      unfolded hs a b, THEN mp, OF m]
  from th [THEN conjunct1] c d
  have "adjacent_nondecreasing (map time_hours (rinex_rollover (\<lambda>h. h + 24) 1 ?s))" by simp
  moreover from th [THEN conjunct2] c d
  have "adjacent_nondecreasing (timestamp_rollover (\<lambda>h. h + 24) 1 [119/5, 479/20, 1/20, 1/5])"
    by simp
  ultimately show ?thesis by simp
qed

text \<open>
  A second decrease is not corrected: the hours \<open>5, 4, 3\<close> become \<open>5, 28, 27\<close> in both
  parsers.
\<close>

theorem unwrap_monotone_counterexample:
  "map time_hours (rinex_rollover (\<lambda>h. h + 24) 1
      [mk_sample 18000 5 0 0 0, mk_sample 14400 4 0 0 0, mk_sample 10800 3 (0::real) 0 0])
     = [5, 28, 27]
   \<and> timestamp_rollover (\<lambda>h. h + 24) 1 [5, 4, 3] = [5, 28, 27]
   \<and> \<not> adjacent_nondecreasing [5, 28, 27]"
proof -
  have n: "[1..<length [5, 4, 3 :: real]] = [1, 2]" by (simp add: upt_rec)
  have "unwrap_first (\<lambda>cur past. cur \<le> past) (\<lambda>h. h + 24) [5, 4, 3] = [5, 28, 27]"
    unfolding unwrap_first_def first_trigger_def n by simp
  moreover have "unwrap_first (\<lambda>cur past. cur < past) (\<lambda>h. h + 24) [5, 4, 3] = [5, 28, 27]"
    unfolding unwrap_first_def first_trigger_def n by simp
  moreover have "\<not> adjacent_nondecreasing [5, 28, 27]"
    by (simp add: adjacent_nondecreasing_def upt_rec)
  moreover have "map time_hours
      [mk_sample 18000 5 0 0 0, mk_sample 14400 4 0 0 0, mk_sample 10800 3 (0::real) 0 0] = [5, 4, 3]"
    by (simp add: mk_sample_def)
  ultimately show ?thesis
    unfolding rinex_rollover_unwrap timestamp_rollover_unwrap by simp
qed

text \<open>
  C3 (same unwrap in both parsers). The two scans are written alike but do not test
  alike: the trajectory scan triggers at \<open>hours[t] - hours[t-1] \<le> 0\<close>, the capture-log
  scan at \<open>hours[t] - hours[t-1] < 0\<close>. On two equal consecutive hours they part: a capture
  log with the seconds \<open>3600, 3600\<close> keeps the hours \<open>1, 1\<close>, and a trajectory with the
  times \<open>01:00:00, 01:00:00\<close> gets the hours \<open>1, 25\<close>.
\<close>

theorem rollover_trigger_divergence:
  "process_timestamp_data decimal_float (\<lambda>h. h + 24)
     (Some [[Num 1, Num 3600, Num 0, Str ''2,N'', Str ''1,E'', Str ''3,V''],
            [Num 2, Num 3600, Num 0, Str ''2,N'', Str ''1,E'', Str ''3,V'']])
     = ([1, 1], [Num 1, Num 2], [[1, 2, 3], [1, 2, 3]])
   \<and> map time_hours (process_rinex_data decimal_float (\<lambda>h. h + 24)
     (Some [pos_row (Str ''01:00:00'') (Num 1) (Num 2) (Num 3),
            pos_row (Str ''01:00:00'') (Num 1) (Num 2) (Num 3)]))
     = [1, 25]"
proof -
  let ?log = "[[Num 1, Num 3600, Num 0, Str ''2,N'', Str ''1,E'', Str ''3,V''],
            [Num 2, Num 3600, Num 0, Str ''2,N'', Str ''1,E'', Str ''3,V'']]"
  let ?df = "[pos_row (Str ''01:00:00'') (Num 1) (Num 2) (Num 3),
            pos_row (Str ''01:00:00'') (Num 1) (Num 2) (Num 3)]"
  have n: "[1..<length [1, 1 :: real]] = [1]" by (simp add: upt_rec)
  have le: "unwrap_first (\<lambda>cur past. cur \<le> past) (\<lambda>h. h + 24) [1, 1] = [1, 25]"
    unfolding unwrap_first_def first_trigger_def n by simp
  have lt: "unwrap_first (\<lambda>cur past. cur < past) (\<lambda>h. h + 24) [1, 1] = [1, 1]"
    unfolding unwrap_first_def first_trigger_def n by simp
  have "[0..<length ?log] = [0, 1]" by (simp add: upt_rec)
  then have "timestamp_rows decimal_float ?log ([], [], []) [0..<length ?log] =
      Some ([1, 1], [Num 1, Num 2], [[1, 2, 3], [1, 2, 3]])"
    by (simp add: capture_row_example)
  then have a: "process_timestamp_data decimal_float (\<lambda>h. h + 24) (Some ?log) =
      ([1, 1], [Num 1, Num 2], [[1, 2, 3], [1, 2, 3]])"
    unfolding process_timestamp_data_def timestamp_rollover_unwrap by (simp add: lt)
  have "[0..<length ?df] = [0, 1]" by (simp add: upt_rec)
  then have "rinex_rows decimal_float ?df [] [0..<length ?df] =
      Some [mk_sample 3600 1 (Num 1) (Num 2) (Num 3), mk_sample 3600 1 (Num 1) (Num 2) (Num 3)]"
    by (simp add: pos_row_example)
  then have "process_rinex_data decimal_float (\<lambda>h. h + 24) (Some ?df) =
      rinex_rollover (\<lambda>h. h + 24) 1
        [mk_sample 3600 1 (Num 1) (Num 2) (Num 3), mk_sample 3600 1 (Num 1) (Num 2) (Num 3)]"
    by (simp add: process_rinex_data_def)
  moreover have "map time_hours
      [mk_sample 3600 1 (Num 1) (Num 2) (Num 3), mk_sample 3600 1 (Num 1) (Num 2) (Num 3)] = [1, 1]"
    by (simp add: mk_sample_def)
  ultimately have b: "map time_hours (process_rinex_data decimal_float (\<lambda>h. h + 24) (Some ?df)) =
      [1, 25]"
    by (simp only: rinex_rollover_unwrap le)
  from a b show ?thesis by (rule conjI)
qed

text \<open>
  C8 (no partial table). A row whose east cell is the text \<open>abc\<close> is not rejected: the
  trajectory parser copies the cells of the columns 24, 25 and 33 without converting them,
  and returns a sample that holds the text.
\<close>

theorem text_coordinate_parsed:
  "process_rinex_data decimal_float (\<lambda>h. h + 24)
     (Some [pos_row (Str ''01:00:00'') (Str ''abc'') (Num 2) (Num 3)])
   = [mk_sample 3600 1 (Str ''abc'') (Num 2) (Num 3)]"
proof -
  let ?row = "pos_row (Str ''01:00:00'') (Str ''abc'') (Num 2) (Num 3)"
  have p: "parse_hms decimal_float (Str ''01:00:00'') = Some (3600, 1)"
    unfolding parse_hms_def cell.case split_examples by (simp add: digits_examples)
  have "rinex_row decimal_float [?row] 0 = Some (mk_sample 3600 1 (Str ''abc'') (Num 2) (Num 3))"
    by (simp add: rinex_row_def iloc_def pos_row_cells p)
  then have "rinex_rows decimal_float [?row] [] [0..<length [?row]] =
      Some [mk_sample 3600 1 (Str ''abc'') (Num 2) (Num 3)]"
    by simp
  moreover have "rinex_rollover (\<lambda>h. h + 24) 1 [mk_sample 3600 1 (Str ''abc'') (Num 2) (Num 3)] =
      [mk_sample 3600 1 (Str ''abc'') (Num 2) (Num 3)]"
    by (subst rinex_rollover.simps) simp
  ultimately show ?thesis by (simp add: process_rinex_data_def)
qed

end
